theory Spec2Isabelle
  imports Main
begin

unbundle bit_operations_syntax

section \<open>Text and errors\<close>

text \<open>
  A Python \<open>str\<close> is a sequence of Unicode code points; it is modelled as a list of
  natural numbers, so that \<open>len\<close>, slicing and indexing count what Python counts.
  \<open>py ''abc''\<close> is the text with the code points of the ASCII literal.
\<close>

type_synonym pystr = "nat list"

abbreviation (input) py :: "string \<Rightarrow> pystr" where
  "py s \<equiv> map of_char s"

abbreviation (input) ch :: "char \<Rightarrow> nat" where
  "ch c \<equiv> of_char c"

text \<open>The exceptions the modelled code can raise.\<close>

datatype py_error =
    JSONDecodeError | ValueError | RecursionError | OSError | KeyError | TypeError | AttributeError

section \<open>Chunking of long transcripts (\<open>summarize_long_transcript\<close>)\<close>

text \<open>
  \<^verbatim>\<open>for i in range(0, len(transcript), CHUNK_SIZE): chunks.append(transcript[i:i + CHUNK_SIZE])\<close>
  The loop variable \<open>i\<close> runs over \<open>0, C, 2C, ...\<close> while \<open>i < len(transcript)\<close>;
  the slice \<open>transcript[i:i + C]\<close> is \<open>take C (drop i transcript)\<close>.
  \<open>range\<close> with step \<open>0\<close> raises \<open>ValueError\<close>.
\<close>

function chunk_loop :: "nat \<Rightarrow> nat \<Rightarrow> 'a list \<Rightarrow> 'a list list" where
  "chunk_loop c i t =
     (if c = 0 \<or> length t \<le> i then []
      else take c (drop i t) # chunk_loop c (i + c) t)"
  by pat_completeness auto
termination
  by (relation "measure (\<lambda>(c, i, t). length t - i)") auto

declare chunk_loop.simps [simp del]

definition chunks :: "nat \<Rightarrow> 'a list \<Rightarrow> py_error + 'a list list" where
  "chunks c t = (if c = 0 then Inl ValueError else Inr (chunk_loop c 0 t))"

definition CHUNK_SIZE :: nat where "CHUNK_SIZE = 50000"
definition LONG_SESSION_THRESHOLD :: nat where "LONG_SESSION_THRESHOLD = 60000"

section \<open>JSON values\<close>

text \<open>
  What \<open>json.loads\<close> returns: \<open>None\<close>, \<open>bool\<close>, \<open>int\<close>, \<open>float\<close>, \<open>str\<close>,
  \<open>list\<close>, \<open>dict\<close>. A float is kept as the lexeme it was read from (no floating-point
  arithmetic is modelled). A \<open>dict\<close> is an association list in insertion order with
  distinct keys, which is what a Python dictionary is.
\<close>

datatype json =
    JNull
  | JBool bool
  | JInt int
  | JFloat pystr
  | JStr pystr
  | JArr "json list"
  | JObj "(pystr \<times> json) list"

type_synonym 'v pydict = "(pystr \<times> 'v) list"

text \<open>\<open>d[k] = v\<close>: an existing key keeps its position, a new key is appended.\<close>

fun dict_set :: "'v pydict \<Rightarrow> pystr \<Rightarrow> 'v \<Rightarrow> 'v pydict" where
  "dict_set [] k v = [(k, v)]"
| "dict_set ((k', v') # d) k v =
     (if k' = k then (k', v) # d else (k', v') # dict_set d k v)"

text \<open>\<open>d.get(k)\<close>.\<close>

definition dict_get :: "'v pydict \<Rightarrow> pystr \<Rightarrow> 'v option" where
  "dict_get d k = map_of d k"

text \<open>\<open>dict(pairs)\<close>: later pairs overwrite earlier ones with the same key.\<close>

definition dict_of_pairs :: "(pystr \<times> 'v) list \<Rightarrow> 'v pydict" where
  "dict_of_pairs ps = foldl (\<lambda>d (k, v). dict_set d k v) [] ps"

section \<open>The JSON decoder behind \<open>extract_json_object\<close>\<close>

text \<open>
  \<open>extract_json_object\<close> calls \<open>json.JSONDecoder().raw_decode(text, idx)\<close> of the Python
  standard library. The decoder is modelled after CPython's \<open>json/decoder.py\<close> and
  \<open>json/scanner.py\<close> (\<open>py_scanstring\<close>, \<open>JSONObject\<close>, \<open>JSONArray\<close>,
  \<open>py_make_scanner\<close>, with the ASCII-only digits of the C accelerator).
  The decoder reads \<open>s\<close> from position \<open>idx\<close> on and never looks at what is before
  \<open>idx\<close>; the model passes the text from \<open>idx\<close> on (\<open>s[idx:]\<close>) and returns the text
  from \<open>end\<close> on (\<open>s[end:]\<close>) with the value.

  Two limits of the interpreter are visible in the result and are parameters:
  the recursion limit (a value nested deeper raises \<open>RecursionError\<close>) and the limit on
  the number of digits of an integer literal (\<open>sys.get_int_max_str_digits()\<close>,
  \<open>0\<close> for no limit; a longer literal raises \<open>ValueError\<close>).
\<close>

text \<open>
  Further library functions the program calls are parameters of the model as well:
  \<^item> \<open>float_sign\<close>: the sign of \<open>float(lexeme)\<close>, which decides the truth value of a
    float and the test \<open>v > 0\<close>;
  \<^item> \<open>fromisoformat\<close>: \<open>datetime.fromisoformat\<close>, \<open>None\<close> where it raises;
  \<^item> \<open>json_dumps\<close>: the text \<open>json.dump(obj, f, indent=2)\<close> writes;
  \<^item> \<open>umask\<close>: the file mode creation mask of the process.
\<close>

datatype fsign = FNeg | FZero | FPos | FNaN

text \<open>
  A \<open>datetime\<close> object, as far as the program observes it: its position on the time
  line in microseconds (\<open>instant\<close>), whether it carries a time zone (\<open>aware\<close>), its
  \<open>hour\<close> field and its \<open>isoformat()\<close>.
\<close>

record datetime =
  instant :: int
  aware :: bool
  hour :: nat
  isoformat :: pystr

record pyenv =
  recursion_limit :: nat
  int_max_str_digits :: nat
  float_sign :: "pystr \<Rightarrow> fsign"
  fromisoformat :: "pystr \<Rightarrow> datetime option"
  json_dumps :: "json \<Rightarrow> pystr"
  umask :: nat

definition QUOTE :: nat where "QUOTE = 0x22"
definition BACKSLASH_CHAR :: nat where "BACKSLASH_CHAR = 0x5C"

text \<open>\<open>WHITESPACE = re.compile(r'[ \t\n\r]*')\<close>\<close>

definition is_ws :: "nat \<Rightarrow> bool" where
  "is_ws c \<longleftrightarrow> c = 0x20 \<or> c = 0x09 \<or> c = 0x0A \<or> c = 0x0D"

definition skip_ws :: "pystr \<Rightarrow> pystr" where
  "skip_ws s = dropWhile is_ws s"

definition is_digit :: "nat \<Rightarrow> bool" where
  "is_digit c \<longleftrightarrow> ch CHR ''0'' \<le> c \<and> c \<le> ch CHR ''9''"

definition hex_digit :: "nat \<Rightarrow> nat option" where
  "hex_digit c =
     (if ch CHR ''0'' \<le> c \<and> c \<le> ch CHR ''9'' then Some (c - ch CHR ''0'')
      else if ch CHR ''a'' \<le> c \<and> c \<le> ch CHR ''f'' then Some (c - ch CHR ''a'' + 10)
      else if ch CHR ''A'' \<le> c \<and> c \<le> ch CHR ''F'' then Some (c - ch CHR ''A'' + 10)
      else None)"

text \<open>
  \<open>_decode_uXXXX(s, pos)\<close>, with \<open>pos\<close> at the \<open>u\<close>: the argument here is the text
  after the \<open>u\<close>. Four hexadecimal digits, or \<open>JSONDecodeError\<close>.
\<close>

definition decode_uXXXX :: "pystr \<Rightarrow> py_error + nat" where
  "decode_uXXXX s =
     (case s of
        a # b # c # d # _ \<Rightarrow>
          (case (hex_digit a, hex_digit b, hex_digit c, hex_digit d) of
             (Some x3, Some x2, Some x1, Some x0) \<Rightarrow> Inr (((x3 * 16 + x2) * 16 + x1) * 16 + x0)
           | _ \<Rightarrow> Inl JSONDecodeError)
      | _ \<Rightarrow> Inl JSONDecodeError)"

text \<open>
  \<open>BACKSLASH = {'"': '"', '\\': '\\', '/': '/', 'b': '\b', 'f': '\f', 'n': '\n', 'r': '\r', 't': '\t'}\<close>
\<close>

definition BACKSLASH :: "nat \<Rightarrow> nat option" where
  "BACKSLASH esc =
     (if esc = QUOTE then Some QUOTE
      else if esc = BACKSLASH_CHAR then Some BACKSLASH_CHAR
      else if esc = ch CHR ''/'' then Some (ch CHR ''/'')
      else if esc = ch CHR ''b'' then Some 0x08
      else if esc = ch CHR ''f'' then Some 0x0C
      else if esc = ch CHR ''n'' then Some 0x0A
      else if esc = ch CHR ''r'' then Some 0x0D
      else if esc = ch CHR ''t'' then Some 0x09
      else None)"

definition cons_char :: "nat \<Rightarrow> py_error + (pystr \<times> pystr) \<Rightarrow> py_error + (pystr \<times> pystr)" where
  "cons_char c r = (case r of Inl e \<Rightarrow> Inl e | Inr (str, rest) \<Rightarrow> Inr (c # str, rest))"

text \<open>
  \<open>py_scanstring(s, end, strict=True)\<close>, with \<open>end\<close> just after the opening quote.
  The regular expression \<open>STRINGCHUNK = (.*?)(["\\\x00-\x1f])\<close> copies characters up to
  the first quote, backslash or control character; a quote ends the string, a control
  character is an error (strict mode), a backslash starts an escape.

  \<open>scan_escape\<close> is the part of the loop body after a backslash: its argument is the
  text after the backslash, its result the decoded character and the number of
  characters read (\<open>1\<close> for a simple escape, \<open>5\<close> for \<open>uXXXX\<close>, \<open>11\<close> for a high
  surrogate escape followed by a low surrogate escape, which are one code point).
\<close>

definition scan_escape :: "pystr \<Rightarrow> py_error + (nat \<times> nat)" where
  "scan_escape s =
     (case s of
        [] \<Rightarrow> Inl JSONDecodeError
      | esc # s1 \<Rightarrow>
          if esc \<noteq> ch CHR ''u'' then
            (case BACKSLASH esc of
               None \<Rightarrow> Inl JSONDecodeError
             | Some c \<Rightarrow> Inr (c, 1))
          else
            (case decode_uXXXX s1 of
               Inl e \<Rightarrow> Inl e
             | Inr uni \<Rightarrow>
                 if 0xd800 \<le> uni \<and> uni \<le> 0xdbff
                    \<and> take 2 (drop 4 s1) = [BACKSLASH_CHAR, ch CHR ''u''] then
                   (case decode_uXXXX (drop 6 s1) of
                      Inl e \<Rightarrow> Inl e
                    | Inr uni2 \<Rightarrow>
                        if 0xdc00 \<le> uni2 \<and> uni2 \<le> 0xdfff then
                          Inr (0x10000 + (push_bit 10 (uni - 0xd800) OR (uni2 - 0xdc00)), 11)
                        else Inr (uni, 5))
                 else Inr (uni, 5)))"

fun scanstring :: "pystr \<Rightarrow> py_error + (pystr \<times> pystr)" where
  "scanstring [] = Inl JSONDecodeError"
| "scanstring (c # s) =
     (if c = QUOTE then Inr ([], s)
      else if c = BACKSLASH_CHAR then
        (case scan_escape s of
           Inl e \<Rightarrow> Inl e
         | Inr (c', n) \<Rightarrow> cons_char c' (scanstring (drop n s)))
      else if c < 0x20 then Inl JSONDecodeError
      else cons_char c (scanstring s))"

text \<open>
  \<open>NUMBER_RE = (-?(?:0|[1-9][0-9]*))(\.[0-9]+)?([eE][-+]?[0-9]+)?\<close>, matched at the
  current position. The three groups are \<open>integer\<close>, \<open>frac\<close> and \<open>exp\<close>; the optional
  groups are absent when they do not match, and the repetitions are greedy.
\<close>

definition match_frac :: "pystr \<Rightarrow> pystr option \<times> pystr" where
  "match_frac s =
     (case s of
        c # t \<Rightarrow>
          if c = ch CHR ''.'' \<and> takeWhile is_digit t \<noteq> []
          then (Some (c # takeWhile is_digit t), dropWhile is_digit t)
          else (None, s)
      | [] \<Rightarrow> (None, s))"

definition match_exp :: "pystr \<Rightarrow> pystr option \<times> pystr" where
  "match_exp s =
     (case s of
        c # t \<Rightarrow>
          if c = ch CHR ''e'' \<or> c = ch CHR ''E'' then
            (let (sg, t') =
                   (case t of
                      d # t2 \<Rightarrow> if d = ch CHR ''-'' \<or> d = ch CHR ''+'' then ([d], t2) else ([], t)
                    | [] \<Rightarrow> ([], t))
             in if takeWhile is_digit t' \<noteq> []
                then (Some (c # sg @ takeWhile is_digit t'), dropWhile is_digit t')
                else (None, s))
          else (None, s)
      | [] \<Rightarrow> (None, s))"

definition match_integer :: "pystr \<Rightarrow> (pystr \<times> pystr) option" where
  "match_integer s =
     (let (sg, s1) =
            (case s of
               c # t \<Rightarrow> if c = ch CHR ''-'' then ([c], t) else ([], s)
             | [] \<Rightarrow> ([], s))
      in case s1 of
           [] \<Rightarrow> None
         | c # t \<Rightarrow>
             if c = ch CHR ''0'' then Some (sg @ [c], t)
             else if ch CHR ''1'' \<le> c \<and> c \<le> ch CHR ''9''
             then Some (sg @ c # takeWhile is_digit t, dropWhile is_digit t)
             else None)"

definition match_number :: "pystr \<Rightarrow> (pystr \<times> pystr option \<times> pystr option \<times> pystr) option" where
  "match_number s =
     (case match_integer s of
        None \<Rightarrow> None
      | Some (integer, s1) \<Rightarrow>
          (let (frac, s2) = match_frac s1; (exp, s3) = match_exp s2
           in Some (integer, frac, exp, s3)))"

text \<open>
  \<open>int(integer)\<close> for a lexeme matched by the first group: an optional minus sign and
  decimal digits. More digits than the interpreter's limit raise \<open>ValueError\<close>.
\<close>

definition digits_value :: "pystr \<Rightarrow> nat" where
  "digits_value ds = foldl (\<lambda>n c. 10 * n + (c - ch CHR ''0'')) 0 ds"

definition parse_int :: "nat \<Rightarrow> pystr \<Rightarrow> py_error + int" where
  "parse_int max_digits lexeme =
     (let (neg, ds) =
            (case lexeme of
               c # t \<Rightarrow> if c = ch CHR ''-'' then (True, t) else (False, lexeme)
             | [] \<Rightarrow> (False, lexeme))
      in if 0 < max_digits \<and> max_digits < length ds then Inl ValueError
         else Inr (if neg then - int (digits_value ds) else int (digits_value ds)))"

text \<open>
  \<open>JSONObject((s, end), strict, scan_once, ...)\<close>, with \<open>end\<close> just after the opening
  brace. \<open>obj_loop\<close> is its \<open>while True\<close> loop, entered just after the opening quote of a
  key, with the pairs read so far. The value scanner is a parameter, as in the source.
  Each of the source's ways of skipping whitespace is \<open>skip_ws\<close>.

  Every value scan reads at least one character, so the loop ends; the test
  \<open>length s5 < length s\<close> before the next round states this and never fails for the
  scanner it is used with (lemma \<open>scan_once_shorter\<close>).
\<close>

type_synonym scanner = "pystr \<Rightarrow> py_error + (json \<times> pystr)"

function obj_loop :: "scanner \<Rightarrow> (pystr \<times> json) list \<Rightarrow> pystr
    \<Rightarrow> py_error + ((pystr \<times> json) list \<times> pystr)" where
  "obj_loop scan pairs s =
     (case scanstring s of
        Inl e \<Rightarrow> Inl e
      | Inr (key, s1) \<Rightarrow>
          (case skip_ws s1 of
             [] \<Rightarrow> Inl JSONDecodeError
           | c # s2 \<Rightarrow>
               if c \<noteq> ch CHR '':'' then Inl JSONDecodeError
               else
                 (case scan (skip_ws s2) of
                    Inl e \<Rightarrow> Inl e
                  | Inr (val, s3) \<Rightarrow>
                      (case skip_ws s3 of
                         [] \<Rightarrow> Inl JSONDecodeError
                       | nextchar # s4 \<Rightarrow>
                           if nextchar = ch CHR ''}'' then Inr (pairs @ [(key, val)], s4)
                           else if nextchar \<noteq> ch CHR '','' then Inl JSONDecodeError
                           else
                             (case skip_ws s4 of
                                [] \<Rightarrow> Inl JSONDecodeError
                              | q # s5 \<Rightarrow>
                                  if q \<noteq> QUOTE then Inl JSONDecodeError
                                  else if length s5 < length s
                                  then obj_loop scan (pairs @ [(key, val)]) s5
                                  else Inl JSONDecodeError)))))"
  by pat_completeness auto
termination
  by (relation "measure (\<lambda>(scan, pairs, s). length s)") auto

declare obj_loop.simps [simp del]

definition JSONObject :: "scanner \<Rightarrow> pystr \<Rightarrow> py_error + (json \<times> pystr)" where
  "JSONObject scan s =
     (case skip_ws s of
        [] \<Rightarrow> Inl JSONDecodeError
      | nextchar # s1 \<Rightarrow>
          if nextchar = ch CHR ''}'' then Inr (JObj [], s1)
          else if nextchar \<noteq> QUOTE then Inl JSONDecodeError
          else
            (case obj_loop scan [] s1 of
               Inl e \<Rightarrow> Inl e
             | Inr (pairs, rest) \<Rightarrow> Inr (JObj (dict_of_pairs pairs), rest)))"

text \<open>
  \<open>JSONArray((s, end), scan_once)\<close>, with \<open>end\<close> just after the opening bracket;
  \<open>arr_loop\<close> is its \<open>while True\<close> loop, entered at the first character of a value.
\<close>

function arr_loop :: "scanner \<Rightarrow> json list \<Rightarrow> pystr \<Rightarrow> py_error + (json list \<times> pystr)" where
  "arr_loop scan vals s =
     (case scan s of
        Inl e \<Rightarrow> Inl e
      | Inr (val, s1) \<Rightarrow>
          (case skip_ws s1 of
             [] \<Rightarrow> Inl JSONDecodeError
           | nextchar # s2 \<Rightarrow>
               if nextchar = ch CHR '']'' then Inr (vals @ [val], s2)
               else if nextchar \<noteq> ch CHR '','' then Inl JSONDecodeError
               else if length (skip_ws s2) < length s
               then arr_loop scan (vals @ [val]) (skip_ws s2)
               else Inl JSONDecodeError))"
  by pat_completeness auto
termination
  by (relation "measure (\<lambda>(scan, vals, s). length s)") auto

declare arr_loop.simps [simp del]

definition JSONArray :: "scanner \<Rightarrow> pystr \<Rightarrow> py_error + (json \<times> pystr)" where
  "JSONArray scan s =
     (let s0 = skip_ws s
      in if take 1 s0 = [ch CHR '']''] then Inr (JArr [], drop 1 s0)
         else
           (case arr_loop scan [] s0 of
              Inl e \<Rightarrow> Inl e
            | Inr (vals, rest) \<Rightarrow> Inr (JArr vals, rest)))"

text \<open>
  \<open>_scan_once(string, idx)\<close> of \<open>py_make_scanner\<close>. The first argument is the digit
  limit, the second the nesting depth still allowed. Running off the end of the text or
  finding no value (\<open>StopIteration\<close>) becomes \<open>JSONDecodeError\<close> in every caller.
\<close>

primrec scan_once :: "nat \<Rightarrow> nat \<Rightarrow> scanner" where
  "scan_once max_digits 0 = (\<lambda>s. Inl RecursionError)"
| "scan_once max_digits (Suc depth) = (\<lambda>s.
     case s of
       [] \<Rightarrow> Inl JSONDecodeError
     | nextchar # t \<Rightarrow>
         if nextchar = QUOTE then
           (case scanstring t of
              Inl e \<Rightarrow> Inl e
            | Inr (str, rest) \<Rightarrow> Inr (JStr str, rest))
         else if nextchar = ch CHR ''{'' then JSONObject (scan_once max_digits depth) t
         else if nextchar = ch CHR ''['' then JSONArray (scan_once max_digits depth) t
         else if nextchar = ch CHR ''n'' \<and> take 4 s = py ''null'' then Inr (JNull, drop 4 s)
         else if nextchar = ch CHR ''t'' \<and> take 4 s = py ''true'' then Inr (JBool True, drop 4 s)
         else if nextchar = ch CHR ''f'' \<and> take 5 s = py ''false'' then Inr (JBool False, drop 5 s)
         else
           (case match_number s of
              Some (integer, frac, exp, rest) \<Rightarrow>
                if frac \<noteq> None \<or> exp \<noteq> None
                then Inr (JFloat (integer @ (case frac of None \<Rightarrow> [] | Some f \<Rightarrow> f)
                                           @ (case exp of None \<Rightarrow> [] | Some x \<Rightarrow> x)), rest)
                else
                  (case parse_int max_digits integer of
                     Inl e \<Rightarrow> Inl e
                   | Inr n \<Rightarrow> Inr (JInt n, rest))
            | None \<Rightarrow>
                if nextchar = ch CHR ''N'' \<and> take 3 s = py ''NaN''
                then Inr (JFloat (py ''NaN''), drop 3 s)
                else if nextchar = ch CHR ''I'' \<and> take 8 s = py ''Infinity''
                then Inr (JFloat (py ''Infinity''), drop 8 s)
                else if nextchar = ch CHR ''-'' \<and> take 9 s = py ''-Infinity''
                then Inr (JFloat (py ''-Infinity''), drop 9 s)
                else Inl JSONDecodeError))"

text \<open>\<open>JSONDecoder.raw_decode(s, idx)\<close>, on the text from \<open>idx\<close> on.\<close>

definition raw_decode :: "pyenv \<Rightarrow> pystr \<Rightarrow> py_error + (json \<times> pystr)" where
  "raw_decode env s = scan_once (int_max_str_digits env) (recursion_limit env) s"

text \<open>
  \<^verbatim>\<open>
  def extract_json_object(text):
      idx = text.find("{")
      if idx == -1:
          return None
      try:
          obj, _ = _json_decoder.raw_decode(text, idx)
          return obj
      except json.JSONDecodeError:
          return None
  \<close>
  Only \<open>JSONDecodeError\<close> is caught: any other exception of the decoder leaves the function.
\<close>

definition extract_json_object :: "pyenv \<Rightarrow> pystr \<Rightarrow> py_error + json option" where
  "extract_json_object env text =
     (case dropWhile (\<lambda>c. c \<noteq> ch CHR ''{'') text of
        [] \<Rightarrow> Inr None
      | c # t \<Rightarrow>
          (case raw_decode env (c # t) of
             Inr (obj, _) \<Rightarrow> Inr (Some obj)
           | Inl JSONDecodeError \<Rightarrow> Inr None
           | Inl e \<Rightarrow> Inl e))"

text \<open>
  \<open>json.load(f)\<close> is \<open>json.loads(f.read())\<close>: a leading byte order mark is an error,
  leading whitespace is skipped, one value is decoded, and anything but whitespace after
  it is an error (\<open>Extra data\<close>).
\<close>

definition json_loads :: "pyenv \<Rightarrow> pystr \<Rightarrow> py_error + json" where
  "json_loads env s =
     (if take 1 s = [0xFEFF] then Inl JSONDecodeError
      else
        (case raw_decode env (skip_ws s) of
           Inl e \<Rightarrow> Inl e
         | Inr (obj, rest) \<Rightarrow> if skip_ws rest = [] then Inr obj else Inl JSONDecodeError))"

section \<open>Python truth values and comparisons of JSON values\<close>

text \<open>\<open>bool(v)\<close>, as in \<open>if v:\<close>.\<close>

fun truthy :: "pyenv \<Rightarrow> json \<Rightarrow> bool" where
  "truthy env JNull = False"
| "truthy env (JBool b) = b"
| "truthy env (JInt n) = (n \<noteq> 0)"
| "truthy env (JFloat x) = (float_sign env x \<noteq> FZero)"
| "truthy env (JStr s) = (s \<noteq> [])"
| "truthy env (JArr vs) = (vs \<noteq> [])"
| "truthy env (JObj d) = (d \<noteq> [])"

text \<open>
  \<open>v and v > 0\<close>: a false value is not compared; \<open>True\<close> is \<open>1\<close>; comparing a
  non-empty string, list or dictionary with \<open>0\<close> raises \<open>TypeError\<close>.
\<close>

fun truthy_and_positive :: "pyenv \<Rightarrow> json \<Rightarrow> py_error + bool" where
  "truthy_and_positive env JNull = Inr False"
| "truthy_and_positive env (JBool b) = Inr b"
| "truthy_and_positive env (JInt n) = Inr (n \<noteq> 0 \<and> 0 < n)"
| "truthy_and_positive env (JFloat x) = Inr (float_sign env x \<noteq> FZero \<and> float_sign env x = FPos)"
| "truthy_and_positive env (JStr s) = (if s = [] then Inr False else Inl TypeError)"
| "truthy_and_positive env (JArr vs) = (if vs = [] then Inr False else Inl TypeError)"
| "truthy_and_positive env (JObj d) = (if d = [] then Inr False else Inl TypeError)"

section \<open>The facet cache (\<open>load_cached_facet\<close>, \<open>save_facet\<close>)\<close>

text \<open>
  The directory \<open>FACETS_DIR\<close> holds one file \<open>{session_id}.json\<close> per cached facet. It is
  modelled as a map from the session id to the file (its text and its permission bits),
  with the set of entries that the operating system refuses to open for writing
  (a read-only file or file system, a full disk): \<open>os.open\<close> raises \<open>OSError\<close> for them.
\<close>

record cache_file =
  file_text :: pystr
  file_mode :: nat

record store =
  files :: "pystr \<rightharpoonup> cache_file"
  unwritable :: "pystr set"

text \<open>
  \<^verbatim>\<open>
  def load_cached_facet(session_id):
      path = FACETS_DIR / f"{session_id}.json"
      if path.exists():
          try:
              with open(path) as f:
                  return json.load(f)
          except Exception:
              return None
      return None
  \<close>
\<close>

definition load_cached_facet :: "pyenv \<Rightarrow> store \<Rightarrow> pystr \<Rightarrow> json option" where
  "load_cached_facet env st session_id =
     (case files st session_id of
        None \<Rightarrow> None
      | Some f \<Rightarrow>
          (case json_loads env (file_text f) of
             Inl e \<Rightarrow> None
           | Inr obj \<Rightarrow> Some obj))"

text \<open>
  \<^verbatim>\<open>
  def save_facet(facet):
      FACETS_DIR.mkdir(parents=True, exist_ok=True)
      path = FACETS_DIR / f"{facet['session_id']}.json"
      fd = os.open(path, os.O_WRONLY | os.O_CREAT | os.O_TRUNC, 0o600)
      with os.fdopen(fd, "w") as f:
          json.dump(facet, f, indent=2)
  \<close>
  \<open>os.open\<close> with \<open>O_CREAT | O_TRUNC\<close> creates the file with the permission bits
  \<open>0o600 & ~umask\<close> when there is none, and empties it in place (keeping its permission
  bits) when there is one. The text then goes to the same file, and is complete when
  the file is closed.

  The only caller passes a dictionary whose \<open>session_id\<close> is a string
  (\<open>extract_facets\<close> has just set it); the name of the file for another value of
  \<open>session_id\<close> is not modelled, and such a call is \<open>TypeError\<close> here.
\<close>

definition facet_session_id :: "json \<Rightarrow> py_error + pystr" where
  "facet_session_id facet =
     (case facet of
        JObj d \<Rightarrow>
          (case dict_get d (py ''session_id'') of
             None \<Rightarrow> Inl KeyError
           | Some (JStr sid) \<Rightarrow> Inr sid
           | Some _ \<Rightarrow> Inl TypeError)
      | _ \<Rightarrow> Inl TypeError)"

definition os_open_trunc :: "pyenv \<Rightarrow> store \<Rightarrow> pystr \<Rightarrow> py_error + store" where
  "os_open_trunc env st name =
     (if name \<in> unwritable st then Inl OSError
      else
        Inr (st\<lparr>files := (files st)(name \<mapsto>
               \<lparr>file_text = [],
                file_mode = (case files st name of
                               None \<Rightarrow> 0x180 - (0x180 AND umask env)
                             | Some f \<Rightarrow> file_mode f)\<rparr>)\<rparr>))"

text \<open>The file after \<open>n\<close> characters of \<open>text\<close> have reached it.\<close>

definition write_prefix :: "store \<Rightarrow> pystr \<Rightarrow> pystr \<Rightarrow> nat \<Rightarrow> store" where
  "write_prefix st name text n =
     (case files st name of
        None \<Rightarrow> st
      | Some f \<Rightarrow> st\<lparr>files := (files st)(name \<mapsto> f\<lparr>file_text := take n text\<rparr>)\<rparr>)"

definition save_facet :: "pyenv \<Rightarrow> store \<Rightarrow> json \<Rightarrow> py_error + store" where
  "save_facet env st facet =
     (case facet_session_id facet of
        Inl e \<Rightarrow> Inl e
      | Inr sid \<Rightarrow>
          (case os_open_trunc env st sid of
             Inl e \<Rightarrow> Inl e
           | Inr st1 \<Rightarrow>
               Inr (write_prefix st1 sid (json_dumps env facet) (length (json_dumps env facet)))))"

text \<open>
  The cache when the process stops (a signal, a power cut) inside \<open>save_facet\<close>, after
  the file was opened and \<open>n\<close> characters of the text have reached it.
\<close>

definition save_facet_interrupted :: "pyenv \<Rightarrow> store \<Rightarrow> json \<Rightarrow> nat \<Rightarrow> py_error + store" where
  "save_facet_interrupted env st facet n =
     (case facet_session_id facet of
        Inl e \<Rightarrow> Inl e
      | Inr sid \<Rightarrow>
          (case os_open_trunc env st sid of
             Inl e \<Rightarrow> Inl e
           | Inr st1 \<Rightarrow> Inr (write_prefix st1 sid (json_dumps env facet) n)))"

section \<open>Strings\<close>

text \<open>\<open>sub in s\<close>.\<close>

fun is_prefix :: "'a list \<Rightarrow> 'a list \<Rightarrow> bool" where
  "is_prefix [] s = True"
| "is_prefix (p # ps) [] = False"
| "is_prefix (p # ps) (c # s) = (p = c \<and> is_prefix ps s)"

fun contains :: "'a list \<Rightarrow> 'a list \<Rightarrow> bool" where
  "contains sub [] = (sub = [])"
| "contains sub (c # s) = (is_prefix sub (c # s) \<or> contains sub s)"

text \<open>
  \<open>str.isspace\<close> for one character, which is what \<open>str.strip()\<close> removes at both ends;
  \<open>s.strip()\<close> is the empty (false) string exactly when every character of \<open>s\<close> is
  white space.
\<close>

definition py_isspace :: "nat \<Rightarrow> bool" where
  "py_isspace c \<longleftrightarrow>
     (0x09 \<le> c \<and> c \<le> 0x0D) \<or> (0x1C \<le> c \<and> c \<le> 0x20) \<or> c = 0x85 \<or> c = 0xA0
     \<or> c = 0x1680 \<or> (0x2000 \<le> c \<and> c \<le> 0x200A) \<or> c = 0x2028 \<or> c = 0x2029
     \<or> c = 0x202F \<or> c = 0x205F \<or> c = 0x3000"

definition strip_is_empty :: "pystr \<Rightarrow> bool" where
  "strip_is_empty s = list_all py_isspace s"

text \<open>
  \<open>str.lower()\<close>. The ASCII capitals become small letters; of all other characters only
  two have a lower-case form that contains an ASCII character (\<open>U+0130\<close> and the Kelvin
  sign \<open>U+212A\<close>), and they are mapped as Python maps them. Every other character is
  left as it is: Python maps it to characters outside ASCII, so a test for an ASCII
  substring of the result gives what it gives in Python.
\<close>

definition lower_char :: "nat \<Rightarrow> pystr" where
  "lower_char c =
     (if ch CHR ''A'' \<le> c \<and> c \<le> ch CHR ''Z'' then [c + 32]
      else if c = 0x130 then [ch CHR ''i'', 0x307]
      else if c = 0x212A then [ch CHR ''k'']
      else [c])"

definition str_lower :: "pystr \<Rightarrow> pystr" where
  "str_lower s = concat (map lower_char s)"

text \<open>\<open>ts.replace("Z", "+00:00")\<close>\<close>

definition replace_Z :: "pystr \<Rightarrow> pystr" where
  "replace_Z ts = concat (map (\<lambda>c. if c = ch CHR ''Z'' then py ''+00:00'' else [c]) ts)"

text \<open>\<open>sep.join(lines)\<close>\<close>

fun join :: "pystr \<Rightarrow> pystr list \<Rightarrow> pystr" where
  "join sep [] = []"
| "join sep [l] = l"
| "join sep (l # l' # ls) = l @ sep @ join sep (l' # ls)"

text \<open>\<open>str(n)\<close> for an integer.\<close>

function str_of_nat :: "nat \<Rightarrow> pystr" where
  "str_of_nat n = (if n < 10 then [ch CHR ''0'' + n] else str_of_nat (n div 10) @ [ch CHR ''0'' + n mod 10])"
  by pat_completeness auto
termination
  by (relation "measure id") auto

declare str_of_nat.simps [simp del]

definition str_of_int :: "int \<Rightarrow> pystr" where
  "str_of_int i = (if i < 0 then ch CHR ''-'' # str_of_nat (nat (- i)) else str_of_nat (nat i))"

section \<open>Session messages\<close>

text \<open>
  \<open>load_session_messages\<close> returns the records of a session file whose \<open>type\<close> is
  \<open>user\<close>, \<open>assistant\<close> or \<open>system\<close>. The model keeps of a record what the modelled
  functions read:
  \<^item> \<open>timestamp\<close>: \<open>msg.get("timestamp")\<close>, \<open>None\<close> when absent;
  \<^item> \<open>message\<close>: \<open>None\<close> when \<open>msg.get("message")\<close> is false (absent or empty), else
    the \<open>content\<close> of the message: a string, a list of items, absent, or another value;
  \<^item> an item of a list: a dictionary of type \<open>text\<close> (with its \<open>text\<close>, if it has one),
    \<open>tool_use\<close> (with its \<open>name\<close>, if it has one) or \<open>tool_result\<close> (with the truth value
    of \<open>is_error\<close> and its \<open>content\<close>: a string, absent, or another value), a dictionary
    of another type, or a value that is no dictionary.
\<close>

datatype role = User | Assistant | System

datatype result_content = RStr pystr | RAbsent | ROther

datatype item =
    TextItem "pystr option"
  | ToolUse "pystr option"
  | ToolResult bool result_content
  | OtherItem
  | NonDict

datatype content = CStr pystr | CList "item list" | CAbsent | COther

record msg =
  mtype :: role
  timestamp :: "pystr option"
  message :: "content option"

section \<open>Per-session metrics (\<open>extract_session_metrics\<close>)\<close>

text \<open>
  The dictionary that \<open>extract_session_metrics\<close> returns, without the tallies of the
  assistant's tool calls (\<open>tool_counts\<close>, \<open>languages\<close>, \<open>git_commits\<close>, \<open>git_pushes\<close>,
  the \<open>uses_...\<close> flags, \<open>lines_added\<close>, \<open>lines_removed\<close>, \<open>files_modified\<close>), the token
  totals and \<open>summary\<close>: they are accumulators of their own, read by none of the fields
  kept here. The field \<open>start_iso\<close> is the entry \<open>start_time\<close>. A latency sample is kept
  in microseconds: \<open>timedelta.total_seconds()\<close> is that number divided by \<open>10**6\<close>.
\<close>

record metrics =
  session_id :: pystr
  project_path :: pystr
  start_iso :: pystr
  duration_minutes :: int
  user_message_count :: nat
  assistant_message_count :: nat
  first_prompt :: pystr
  user_interruptions :: nat
  user_response_times :: "int list"
  tool_errors :: nat
  tool_error_categories :: "nat pydict"
  message_hours :: "nat list"
  user_message_timestamps :: "pystr list"

text \<open>The local variables of the loop: the accumulators above and three more.\<close>

record locals = metrics +
  last_assistant_ts :: "pystr option"
  start_time :: "datetime option"
  end_time :: "datetime option"

text \<open>\<open>d[k] = d.get(k, 0) + 1\<close>\<close>

definition dict_incr :: "nat pydict \<Rightarrow> pystr \<Rightarrow> nat pydict" where
  "dict_incr d k = dict_set d k ((case dict_get d k of None \<Rightarrow> 0 | Some n \<Rightarrow> n) + 1)"

text \<open>
  The category of the message of a failed tool call: the \<open>if\<close>/\<open>elif\<close> chain of the
  source, in its order.
\<close>

definition categorize :: "pystr \<Rightarrow> pystr" where
  "categorize err_content =
     (let err_lower = str_lower err_content
      in if contains (py ''exit code'') err_lower then py ''Command Failed''
         else if contains (py ''rejected'') err_lower \<or> contains (py ''doesn't want'') err_lower
         then py ''User Rejected''
         else if contains (py ''string to replace not found'') err_lower
                 \<or> contains (py ''no changes'') err_lower
         then py ''Edit Failed''
         else if contains (py ''modified since read'') err_lower then py ''File Changed''
         else if contains (py ''exceeds maximum'') err_lower \<or> contains (py ''too large'') err_lower
         then py ''File Too Large''
         else if contains (py ''file not found'') err_lower \<or> contains (py ''does not exist'') err_lower
         then py ''File Not Found''
         else py ''Other'')"

text \<open>
  The body of \<open>if item.get("type") == "tool_result" and item.get("is_error"):\<close>.
  An absent \<open>content\<close> is the default \<open>""\<close>, a string; a \<open>content\<close> that is no
  string is counted as an error and not put into a category.
\<close>

definition count_tool_error :: "result_content \<Rightarrow> locals \<Rightarrow> locals" where
  "count_tool_error err_content st =
     (let st1 = st\<lparr>tool_errors := tool_errors st + 1\<rparr>
      in case err_content of
           RStr e \<Rightarrow> st1\<lparr>tool_error_categories := dict_incr (tool_error_categories st1) (categorize e)\<rparr>
         | RAbsent \<Rightarrow> st1\<lparr>tool_error_categories := dict_incr (tool_error_categories st1) (categorize [])\<rparr>
         | ROther \<Rightarrow> st1)"

text \<open>
  The first loop over the items of a user message: it stops (\<open>break\<close>) at the first text
  item that is not blank, and counts the failed tool results before it. The result is
  \<open>has_text\<close>, \<open>text_content\<close> and the updated variables.
\<close>

fun scan_user_items :: "item list \<Rightarrow> locals \<Rightarrow> bool \<times> pystr \<times> locals" where
  "scan_user_items [] st = (False, [], st)"
| "scan_user_items (TextItem t # items) st =
     (case t of
        Some text \<Rightarrow> if \<not> strip_is_empty text then (True, text, st) else scan_user_items items st
      | None \<Rightarrow> scan_user_items items st)"
| "scan_user_items (ToolResult is_error err_content # items) st =
     (if is_error then scan_user_items items (count_tool_error err_content st)
      else scan_user_items items st)"
| "scan_user_items (_ # items) st = scan_user_items items st"

definition parse_ts :: "pyenv \<Rightarrow> pystr \<Rightarrow> datetime option" where
  "parse_ts env ts = fromisoformat env (replace_Z ts)"

text \<open>
  \<open>a - b\<close> for two \<open>datetime\<close> objects, in microseconds: \<open>TypeError\<close> when one has a
  time zone and the other has none.
\<close>

definition datetime_sub :: "datetime \<Rightarrow> datetime \<Rightarrow> py_error + int" where
  "datetime_sub a b = (if aware a \<noteq> aware b then Inl TypeError else Inr (instant a - instant b))"

text \<open>
  \<^verbatim>\<open>
  if last_assistant_ts:
      try:
          at = datetime.fromisoformat(last_assistant_ts.replace("Z", "+00:00"))
          ut = datetime.fromisoformat(ts.replace("Z", "+00:00"))
          delta = (ut - at).total_seconds()
          if 2 < delta < 3600:
              response_times.append(delta)
      except Exception:
          pass
  \<close>
  \<open>delta\<close> is the microseconds divided by \<open>10**6\<close>, correctly rounded; \<open>2\<close> and
  \<open>3600\<close> are floats and no other float is within \<open>10**-6\<close> of them, so the test is the
  test on the microseconds.
\<close>

definition record_latency :: "pyenv \<Rightarrow> pystr \<Rightarrow> locals \<Rightarrow> locals" where
  "record_latency env ts st =
     (case last_assistant_ts st of
        None \<Rightarrow> st
      | Some a \<Rightarrow>
          if a = [] then st
          else
            (case parse_ts env a of
               None \<Rightarrow> st
             | Some at \<Rightarrow>
                 (case parse_ts env ts of
                    None \<Rightarrow> st
                  | Some ut \<Rightarrow>
                      (case datetime_sub ut at of
                         Inl e \<Rightarrow> st
                       | Inr delta \<Rightarrow>
                           if 2 * 1000000 < delta \<and> delta < 3600 * 1000000
                           then st\<lparr>user_response_times := user_response_times st @ [delta]\<rparr>
                           else st))))"

text \<open>The body of \<open>if has_text:\<close>.\<close>

definition record_user_text :: "pyenv \<Rightarrow> pystr option \<Rightarrow> pystr \<Rightarrow> locals \<Rightarrow> locals" where
  "record_user_text env ts text_content st =
     (let st1 = st\<lparr>user_message_count := user_message_count st + 1,
                    first_prompt := (if first_prompt st = [] then take 200 text_content
                                     else first_prompt st)\<rparr>
      in case ts of
           None \<Rightarrow> st1
         | Some t \<Rightarrow>
             if t = [] then st1
             else
               (let st2 =
                      (case parse_ts env t of
                         None \<Rightarrow> st1
                       | Some dt \<Rightarrow>
                           st1\<lparr>message_hours := message_hours st1 @ [hour dt],
                               user_message_timestamps := user_message_timestamps st1 @ [t],
                               start_time := (if start_time st1 = None then Some dt
                                              else start_time st1),
                               end_time := Some dt\<rparr>)
                in record_latency env t st2))"

text \<open>The check for interruptions: at most one per message.\<close>

definition INTERRUPTED :: pystr where
  "INTERRUPTED = py ''[Request interrupted by user''"

fun text_item_interrupted :: "item \<Rightarrow> bool" where
  "text_item_interrupted (TextItem (Some text)) = contains INTERRUPTED text"
| "text_item_interrupted _ = False"

definition is_interrupted :: "content \<Rightarrow> bool" where
  "is_interrupted c =
     (case c of
        CStr s \<Rightarrow> contains INTERRUPTED s
      | CList items \<Rightarrow> list_ex text_item_interrupted items
      | _ \<Rightarrow> False)"

text \<open>The body of \<open>if msg["type"] == "user" and msg.get("message"):\<close>.\<close>

definition user_step :: "pyenv \<Rightarrow> pystr option \<Rightarrow> content \<Rightarrow> locals \<Rightarrow> locals" where
  "user_step env ts c st =
     (let (has_text, text_content, st1) =
            (case c of
               CStr s \<Rightarrow> (\<not> strip_is_empty s, if strip_is_empty s then [] else s, st)
             | CAbsent \<Rightarrow> (False, [], st)
             | CList items \<Rightarrow> scan_user_items items st
             | COther \<Rightarrow> (False, [], st));
          st2 = (if has_text then record_user_text env ts text_content st1 else st1)
      in if is_interrupted c then st2\<lparr>user_interruptions := user_interruptions st2 + 1\<rparr> else st2)"

text \<open>
  The part of the body of \<open>if msg["type"] == "assistant" and msg.get("message"):\<close> that
  the kept variables depend on.
\<close>

definition assistant_step :: "pystr option \<Rightarrow> locals \<Rightarrow> locals" where
  "assistant_step ts st =
     (let st1 = st\<lparr>assistant_message_count := assistant_message_count st + 1\<rparr>
      in case ts of
           None \<Rightarrow> st1
         | Some t \<Rightarrow> if t = [] then st1 else st1\<lparr>last_assistant_ts := Some t\<rparr>)"

definition message_step :: "pyenv \<Rightarrow> locals \<Rightarrow> msg \<Rightarrow> locals" where
  "message_step env st m =
     (case message m of
        None \<Rightarrow> st
      | Some c \<Rightarrow>
          (case mtype m of
             Assistant \<Rightarrow> assistant_step (timestamp m) st
           | User \<Rightarrow> user_step env (timestamp m) c st
           | System \<Rightarrow> st))"

definition initial_locals :: "pystr \<Rightarrow> pystr \<Rightarrow> locals" where
  "initial_locals sid project =
     \<lparr>session_id = sid, project_path = project, start_iso = [], duration_minutes = 0,
      user_message_count = 0, assistant_message_count = 0, first_prompt = [],
      user_interruptions = 0, user_response_times = [], tool_errors = 0,
      tool_error_categories = [], message_hours = [], user_message_timestamps = [],
      last_assistant_ts = None, start_time = None, end_time = None\<rparr>"

text \<open>\<open>int(x)\<close> of a quotient: rounding towards zero.\<close>

definition trunc_div :: "int \<Rightarrow> int \<Rightarrow> int" where
  "trunc_div a b = (if a < 0 then - ((- a) div b) else a div b)"

text \<open>
  \<^verbatim>\<open>
  duration_minutes = 0
  start_iso = ""
  if start_time and end_time:
      duration_minutes = max(1, int((end_time - start_time).total_seconds() / 60))
      start_iso = start_time.isoformat()
  \<close>
  A \<open>datetime\<close> object is never false. The subtraction is outside any \<open>try\<close>.
\<close>

definition extract_session_metrics :: "pyenv \<Rightarrow> msg list \<Rightarrow> pystr \<Rightarrow> pystr \<Rightarrow> py_error + metrics" where
  "extract_session_metrics env messages sid project =
     (let st = foldl (message_step env) (initial_locals sid project) messages
      in case (start_time st, end_time st) of
           (Some s, Some e) \<Rightarrow>
             (case datetime_sub e s of
                Inl err \<Rightarrow> Inl err
              | Inr delta \<Rightarrow>
                  Inr (metrics.truncate
                         (st\<lparr>duration_minutes := max 1 (trunc_div delta (60 * 1000000)),
                             start_iso := isoformat s\<rparr>)))
         | _ \<Rightarrow> Inr (metrics.truncate st))"

section \<open>Detection of the tool's own sessions (\<open>is_insights_session\<close>)\<close>

definition insights_marker :: "pystr \<Rightarrow> bool" where
  "insights_marker text \<longleftrightarrow>
     contains (py ''RESPOND WITH ONLY A VALID JSON OBJECT'') text
     \<or> contains (py ''record_facets'') text"

text \<open>
  The loop over the items of a list: \<open>item.get("type")\<close> is called on every item, and
  raises \<open>AttributeError\<close> for one that is no dictionary.
\<close>

fun insights_items :: "item list \<Rightarrow> py_error + bool" where
  "insights_items [] = Inr False"
| "insights_items (NonDict # items) = Inl AttributeError"
| "insights_items (TextItem t # items) =
     (if insights_marker (case t of None \<Rightarrow> [] | Some text \<Rightarrow> text) then Inr True
      else insights_items items)"
| "insights_items (_ # items) = insights_items items"

fun insights_loop :: "msg list \<Rightarrow> py_error + bool" where
  "insights_loop [] = Inr False"
| "insights_loop (m # ms) =
     (if mtype m = User \<and> message m \<noteq> None then
        (case the (message m) of
           CStr s \<Rightarrow> if insights_marker s then Inr True else insights_loop ms
         | CAbsent \<Rightarrow> if insights_marker [] then Inr True else insights_loop ms
         | CList items \<Rightarrow>
             (case insights_items items of
                Inl e \<Rightarrow> Inl e
              | Inr True \<Rightarrow> Inr True
              | Inr False \<Rightarrow> insights_loop ms)
         | COther \<Rightarrow> insights_loop ms)
      else insights_loop ms)"

definition is_insights_session :: "msg list \<Rightarrow> py_error + bool" where
  "is_insights_session messages = insights_loop (take 5 messages)"

section \<open>Transcript serialization (\<open>serialize_transcript\<close>)\<close>

definition USER_MSG_TRUNCATE :: nat where "USER_MSG_TRUNCATE = 2000"
definition ASSISTANT_MSG_TRUNCATE :: nat where "ASSISTANT_MSG_TRUNCATE = 1000"

text \<open>
  The lines of the items of a user message. \<open>item['text']\<close> raises \<open>KeyError\<close> for a
  text item without \<open>text\<close>.
\<close>

fun user_lines :: "item list \<Rightarrow> py_error + pystr list" where
  "user_lines [] = Inr []"
| "user_lines (TextItem t # items) =
     (case t of
        None \<Rightarrow> Inl KeyError
      | Some text \<Rightarrow>
          (case user_lines items of
             Inl e \<Rightarrow> Inl e
           | Inr ls \<Rightarrow> Inr ((py ''[User]: '' @ take USER_MSG_TRUNCATE text) # ls)))"
| "user_lines (_ # items) = user_lines items"

fun assistant_lines :: "item list \<Rightarrow> py_error + pystr list" where
  "assistant_lines [] = Inr []"
| "assistant_lines (TextItem t # items) =
     (case t of
        None \<Rightarrow> Inl KeyError
      | Some text \<Rightarrow>
          (case assistant_lines items of
             Inl e \<Rightarrow> Inl e
           | Inr ls \<Rightarrow> Inr ((py ''[Assistant]: '' @ take ASSISTANT_MSG_TRUNCATE text) # ls)))"
| "assistant_lines (ToolUse name # items) =
     (case assistant_lines items of
        Inl e \<Rightarrow> Inl e
      | Inr ls \<Rightarrow>
          Inr ((py ''[Tool: '' @ (case name of None \<Rightarrow> py ''?'' | Some n \<Rightarrow> n) @ py '']'') # ls))"
| "assistant_lines (_ # items) = assistant_lines items"

definition message_lines :: "msg \<Rightarrow> py_error + pystr list" where
  "message_lines m =
     (case message m of
        None \<Rightarrow> Inr []
      | Some c \<Rightarrow>
          (case mtype m of
             User \<Rightarrow>
               (case c of
                  CStr s \<Rightarrow> Inr [py ''[User]: '' @ take USER_MSG_TRUNCATE s]
                | CAbsent \<Rightarrow> Inr [py ''[User]: '']
                | CList items \<Rightarrow> user_lines items
                | COther \<Rightarrow> Inr [])
           | Assistant \<Rightarrow>
               (case c of
                  CList items \<Rightarrow> assistant_lines items
                | _ \<Rightarrow> Inr [])
           | System \<Rightarrow> Inr []))"

fun transcript_lines :: "msg list \<Rightarrow> py_error + pystr list" where
  "transcript_lines [] = Inr []"
| "transcript_lines (m # ms) =
     (case message_lines m of
        Inl e \<Rightarrow> Inl e
      | Inr ls \<Rightarrow>
          (case transcript_lines ms of
             Inl e \<Rightarrow> Inl e
           | Inr ls' \<Rightarrow> Inr (ls @ ls')))"

definition serialize_transcript :: "msg list \<Rightarrow> py_error + pystr" where
  "serialize_transcript messages =
     (case transcript_lines messages of
        Inl e \<Rightarrow> Inl e
      | Inr ls \<Rightarrow> Inr (join [0x0A] ls))"

section \<open>The text-generation collaborator\<close>

text \<open>
  \<open>api_create(client, model=MODEL, max_tokens=..., messages=[{"role": "user", "content": prompt}])\<close>
  followed by \<open>"".join(b.text for b in resp.content if b.type == "text")\<close>: the
  collaborator is any function from its state, the token budget and the prompt to the
  text of the answer or an exception, and its next state. The client counts the calls.
\<close>

type_synonym 'w collaborator = "'w \<Rightarrow> nat \<Rightarrow> pystr \<Rightarrow> (py_error + pystr) \<times> 'w"

record 'w client =
  world :: 'w
  ncalls :: nat

definition api_create :: "'w collaborator \<Rightarrow> 'w client \<Rightarrow> nat \<Rightarrow> pystr
    \<Rightarrow> (py_error + pystr) \<times> 'w client" where
  "api_create coll cl max_tokens prompt =
     (let (r, w) = coll (world cl) max_tokens prompt
      in (r, \<lparr>world = w, ncalls = ncalls cl + 1\<rparr>))"

text \<open>
  The three fixed texts of the prompts (\<open>FACET_SYSTEM_PROMPT\<close>, \<open>FACET_SCHEMA\<close> and the
  instruction of \<open>summarize_long_transcript\<close>) only reach the collaborator; they are
  parameters of the model.
\<close>

record prompts =
  FACET_SYSTEM_PROMPT :: pystr
  FACET_SCHEMA :: pystr
  SUMMARIZE_PROMPT :: pystr

definition SUMMARIZE_MAX_TOKENS :: nat where "SUMMARIZE_MAX_TOKENS = 2048"
definition FACET_MAX_TOKENS :: nat where "FACET_MAX_TOKENS = 8192"

section \<open>Summaries of long transcripts (\<open>summarize_long_transcript\<close>)\<close>

text \<open>
  The loop over the chunks: one call per chunk, one after the other; a call that raises,
  or an empty answer, is replaced by the first \<open>SUMMARIZE_MAX_TOKENS * 4\<close> characters of
  the chunk.
\<close>

fun summarize_chunks :: "'w collaborator \<Rightarrow> prompts \<Rightarrow> 'w client \<Rightarrow> pystr list
    \<Rightarrow> pystr list \<times> 'w client" where
  "summarize_chunks coll ps cl [] = ([], cl)"
| "summarize_chunks coll ps cl (chunk # cs) =
     (let (r, cl1) = api_create coll cl SUMMARIZE_MAX_TOKENS (SUMMARIZE_PROMPT ps @ chunk);
          summary = (case r of
                       Inl e \<Rightarrow> take (SUMMARIZE_MAX_TOKENS * 4) chunk
                     | Inr text \<Rightarrow> if text \<noteq> [] then text
                                   else take (SUMMARIZE_MAX_TOKENS * 4) chunk);
          (summaries, cl2) = summarize_chunks coll ps cl1 cs
      in (summary # summaries, cl2))"

definition summarize_long_transcript :: "'w collaborator \<Rightarrow> prompts \<Rightarrow> 'w client \<Rightarrow> pystr
    \<Rightarrow> pystr \<times> 'w client" where
  "summarize_long_transcript coll ps cl transcript =
     (if length transcript \<le> LONG_SESSION_THRESHOLD then (transcript, cl)
      else
        (let (summaries, cl1) = summarize_chunks coll ps cl (chunk_loop CHUNK_SIZE 0 transcript)
         in (join ([0x0A, 0x0A] @ py ''---'' @ [0x0A, 0x0A]) summaries, cl1)))"

section \<open>Facet extraction (\<open>extract_facets\<close>)\<close>

text \<open>\<open>facet["session_id"] = session_id\<close>: only a dictionary takes a string key.\<close>

definition set_item :: "json \<Rightarrow> pystr \<Rightarrow> json \<Rightarrow> py_error + json" where
  "set_item obj k v =
     (case obj of
        JObj d \<Rightarrow> Inr (JObj (dict_set d k v))
      | _ \<Rightarrow> Inl TypeError)"

definition session_header :: "pystr \<Rightarrow> metrics \<Rightarrow> pystr" where
  "session_header sid m =
     py ''Session: '' @ take 8 sid @ [0x0A]
     @ py ''Date: '' @ start_iso m @ [0x0A]
     @ py ''Project: '' @ project_path m @ [0x0A]
     @ py ''Duration: '' @ str_of_int (duration_minutes m) @ py '' min'' @ [0x0A, 0x0A]"

text \<open>
  \<^verbatim>\<open>
  def extract_facets(client, messages, session_id, metrics):
      transcript = serialize_transcript(messages)
      header = (...)
      transcript = header + transcript
      transcript = summarize_long_transcript(client, transcript)
      prompt = FACET_SYSTEM_PROMPT + transcript + FACET_SCHEMA
      try:
          resp = api_create(client, model=MODEL, max_tokens=FACET_MAX_TOKENS, messages=[...])
          text = "".join(b.text for b in resp.content if b.type == "text")
          facet = extract_json_object(text)
          if not facet:
              return None
          facet["session_id"] = session_id
          return facet
      except Exception as e:
          print(...)
          return None
  \<close>
  What is raised before the \<open>try\<close> leaves the function; what is raised inside it
  is caught, whatever it is.
\<close>

definition extract_facets :: "pyenv \<Rightarrow> 'w collaborator \<Rightarrow> prompts \<Rightarrow> 'w client \<Rightarrow> msg list
    \<Rightarrow> pystr \<Rightarrow> metrics \<Rightarrow> (py_error + json option) \<times> 'w client" where
  "extract_facets env coll ps cl messages sid m =
     (case serialize_transcript messages of
        Inl e \<Rightarrow> (Inl e, cl)
      | Inr transcript \<Rightarrow>
          (let (transcript1, cl1) =
                 summarize_long_transcript coll ps cl (session_header sid m @ transcript);
               prompt = FACET_SYSTEM_PROMPT ps @ transcript1 @ FACET_SCHEMA ps;
               (r, cl2) = api_create coll cl1 FACET_MAX_TOKENS prompt
           in case r of
                Inl e \<Rightarrow> (Inr None, cl2)
              | Inr text \<Rightarrow>
                  (case extract_json_object env text of
                     Inl e \<Rightarrow> (Inr None, cl2)
                   | Inr None \<Rightarrow> (Inr None, cl2)
                   | Inr (Some facet) \<Rightarrow>
                       if \<not> truthy env facet then (Inr None, cl2)
                       else
                         (case set_item facet (py ''session_id'') (JStr sid) of
                            Inl e \<Rightarrow> (Inr None, cl2)
                          | Inr facet' \<Rightarrow> (Inr (Some facet'), cl2)))))"

section \<open>The run (\<open>main\<close>)\<close>

text \<open>
  A session as \<open>discover_sessions\<close> lists it, with the messages that
  \<open>load_session_messages\<close> reads from its file.
\<close>

record session =
  sess_session_id :: pystr
  sess_project :: pystr
  sess_messages :: "msg list"

text \<open>The variables of \<open>main\<close> that the loops update, the cache and the client.\<close>

record 'w state =
  all_metrics :: "metrics list"
  facets_map :: "json pydict"
  sessions_needing_facets :: "(session \<times> metrics) list"
  cache :: store
  client :: "'w client"

definition MAX_SESSIONS_TO_PROCESS :: nat where "MAX_SESSIONS_TO_PROCESS = 9999"
definition FACET_BATCH_SIZE :: nat where "FACET_BATCH_SIZE = 5"

text \<open>\<open>metrics["user_message_count"] < 2 or metrics["duration_minutes"] < 1\<close>\<close>

definition is_trivial :: "metrics \<Rightarrow> bool" where
  "is_trivial m \<longleftrightarrow> user_message_count m < 2 \<or> duration_minutes m < 1"

text \<open>
  One round of the loop over the sessions (step 2 of \<open>main\<close>):
  \<^verbatim>\<open>
  messages = load_session_messages(sess["path"])
  if not messages:
      continue
  if is_insights_session(messages):
      continue
  metrics = extract_session_metrics(messages, sess["session_id"], sess["project"])
  if metrics["user_message_count"] < 2 or metrics["duration_minutes"] < 1:
      continue
  all_metrics.append(metrics)
  cached = load_cached_facet(sess["session_id"])
  if cached:
      facets_map[sess["session_id"]] = cached
  else:
      sessions_needing_facets.append((sess, messages, metrics))
  \<close>
\<close>

definition scan_session :: "pyenv \<Rightarrow> 'w state \<Rightarrow> session \<Rightarrow> py_error + 'w state" where
  "scan_session env st sess =
     (if sess_messages sess = [] then Inr st
      else
        (case is_insights_session (sess_messages sess) of
           Inl e \<Rightarrow> Inl e
         | Inr True \<Rightarrow> Inr st
         | Inr False \<Rightarrow>
             (case extract_session_metrics env (sess_messages sess)
                     (sess_session_id sess) (sess_project sess) of
                Inl e \<Rightarrow> Inl e
              | Inr m \<Rightarrow>
                  if is_trivial m then Inr st
                  else
                    (let st1 = st\<lparr>all_metrics := all_metrics st @ [m]\<rparr>
                     in case load_cached_facet env (cache st1) (sess_session_id sess) of
                          None \<Rightarrow>
                            Inr (st1\<lparr>sessions_needing_facets :=
                                       sessions_needing_facets st1 @ [(sess, m)]\<rparr>)
                        | Some cached \<Rightarrow>
                            if truthy env cached
                            then Inr (st1\<lparr>facets_map :=
                                            dict_set (facets_map st1) (sess_session_id sess) cached\<rparr>)
                            else Inr (st1\<lparr>sessions_needing_facets :=
                                            sessions_needing_facets st1 @ [(sess, m)]\<rparr>)))))"

fun scan_sessions :: "pyenv \<Rightarrow> 'w state \<Rightarrow> session list \<Rightarrow> py_error + 'w state" where
  "scan_sessions env st [] = Inr st"
| "scan_sessions env st (sess # sessions) =
     (case scan_session env st sess of
        Inl e \<Rightarrow> Inl e
      | Inr st1 \<Rightarrow> scan_sessions env st1 sessions)"

text \<open>
  Step 3 of \<open>main\<close>. The sessions to process are cut into batches of
  \<open>FACET_BATCH_SIZE\<close>. The workers of a batch each run \<open>_extract_one\<close>; an exception
  in a worker is kept in its future. \<open>extract_facets\<close> reads neither the cache nor
  \<open>facets_map\<close>, and leaving the \<open>with\<close> block waits for every worker of the batch, so
  the batch is modelled as: all workers run (in the order in which their results are
  collected, the collaborator being any state machine), then the loop over
  \<open>as_completed(futures)\<close> handles the results:
  \<^verbatim>\<open>
  sid_full, facet = future.result()
  if facet:
      facets_map[sid_full] = facet
      save_facet(facet)
  \<close>
  \<open>future.result()\<close> raises what the worker raised; neither it nor \<open>save_facet\<close> is
  inside a \<open>try\<close>, so an exception there ends the run. The states returned with an
  exception are the variables at that moment.
\<close>

fun run_workers :: "pyenv \<Rightarrow> 'w collaborator \<Rightarrow> prompts \<Rightarrow> 'w client \<Rightarrow> (session \<times> metrics) list
    \<Rightarrow> (pystr \<times> (py_error + json option)) list \<times> 'w client" where
  "run_workers env coll ps cl [] = ([], cl)"
| "run_workers env coll ps cl ((sess, m) # items) =
     (let (r, cl1) = extract_facets env coll ps cl (sess_messages sess) (sess_session_id sess) m;
          (rs, cl2) = run_workers env coll ps cl1 items
      in ((sess_session_id sess, r) # rs, cl2))"

fun collect_results :: "pyenv \<Rightarrow> 'w state \<Rightarrow> (pystr \<times> (py_error + json option)) list
    \<Rightarrow> (py_error \<times> 'w state) + 'w state" where
  "collect_results env st [] = Inr st"
| "collect_results env st ((sid_full, r) # rs) =
     (case r of
        Inl e \<Rightarrow> Inl (e, st)
      | Inr None \<Rightarrow> collect_results env st rs
      | Inr (Some facet) \<Rightarrow>
          if truthy env facet then
            (let st1 = st\<lparr>facets_map := dict_set (facets_map st) sid_full facet\<rparr>
             in case save_facet env (cache st1) facet of
                  Inl e \<Rightarrow> Inl (e, st1)
                | Inr c \<Rightarrow> collect_results env (st1\<lparr>cache := c\<rparr>) rs)
          else collect_results env st rs)"

definition run_batch :: "pyenv \<Rightarrow> 'w collaborator \<Rightarrow> prompts \<Rightarrow> 'w state \<Rightarrow> (session \<times> metrics) list
    \<Rightarrow> (py_error \<times> 'w state) + 'w state" where
  "run_batch env coll ps st batch =
     (let (rs, cl) = run_workers env coll ps (client st) batch
      in collect_results env (st\<lparr>client := cl\<rparr>) rs)"

fun run_batches :: "pyenv \<Rightarrow> 'w collaborator \<Rightarrow> prompts \<Rightarrow> 'w state \<Rightarrow> (session \<times> metrics) list list
    \<Rightarrow> (py_error \<times> 'w state) + 'w state" where
  "run_batches env coll ps st [] = Inr st"
| "run_batches env coll ps st (batch # batches) =
     (case run_batch env coll ps st batch of
        Inl e \<Rightarrow> Inl e
      | Inr st1 \<Rightarrow> run_batches env coll ps st1 batches)"

definition extract_all :: "pyenv \<Rightarrow> 'w collaborator \<Rightarrow> prompts \<Rightarrow> 'w state
    \<Rightarrow> (py_error \<times> 'w state) + 'w state" where
  "extract_all env coll ps st =
     run_batches env coll ps st
       (chunk_loop FACET_BATCH_SIZE 0 (take MAX_SESSIONS_TO_PROCESS (sessions_needing_facets st)))"

text \<open>
  \<^verbatim>\<open>
  def is_warmup_only(session_id):
      f = facets_map.get(session_id)
      if not f:
          return False
      cats = f.get("goal_categories", {})
      active = [k for k, v in cats.items() if v and v > 0]
      return len(active) == 1 and active[0] == "warmup_minimal"
  \<close>
  \<open>f.get\<close> and \<open>cats.items\<close> raise \<open>AttributeError\<close> for a value that is no dictionary.
\<close>

fun active_keys :: "pyenv \<Rightarrow> json pydict \<Rightarrow> py_error + pystr list" where
  "active_keys env [] = Inr []"
| "active_keys env ((k, v) # cats) =
     (case truthy_and_positive env v of
        Inl e \<Rightarrow> Inl e
      | Inr b \<Rightarrow>
          (case active_keys env cats of
             Inl e \<Rightarrow> Inl e
           | Inr ks \<Rightarrow> Inr (if b then k # ks else ks)))"

definition is_warmup_only :: "pyenv \<Rightarrow> json pydict \<Rightarrow> pystr \<Rightarrow> py_error + bool" where
  "is_warmup_only env fm sid =
     (case dict_get fm sid of
        None \<Rightarrow> Inr False
      | Some f \<Rightarrow>
          if \<not> truthy env f then Inr False
          else
            (case f of
               JObj d \<Rightarrow>
                 (case (case dict_get d (py ''goal_categories'') of None \<Rightarrow> JObj [] | Some c \<Rightarrow> c) of
                    JObj cats \<Rightarrow>
                      (case active_keys env cats of
                         Inl e \<Rightarrow> Inl e
                       | Inr active \<Rightarrow> Inr (active = [py ''warmup_minimal'']))
                  | _ \<Rightarrow> Inl AttributeError)
             | _ \<Rightarrow> Inl AttributeError))"

text \<open>
  \<open>filtered_metrics = [m for m in all_metrics if not is_warmup_only(m["session_id"])]\<close>
\<close>

fun filter_metrics :: "pyenv \<Rightarrow> json pydict \<Rightarrow> metrics list \<Rightarrow> py_error + metrics list" where
  "filter_metrics env fm [] = Inr []"
| "filter_metrics env fm (m # ms) =
     (case is_warmup_only env fm (session_id m) of
        Inl e \<Rightarrow> Inl e
      | Inr w \<Rightarrow>
          (case filter_metrics env fm ms of
             Inl e \<Rightarrow> Inl e
           | Inr ms' \<Rightarrow> Inr (if w then ms' else m # ms')))"

text \<open>
  \<open>filtered_facets = {k: v for k, v in facets_map.items() if not is_warmup_only(k)}\<close>
\<close>

fun filter_facets :: "pyenv \<Rightarrow> json pydict \<Rightarrow> json pydict \<Rightarrow> py_error + json pydict" where
  "filter_facets env fm [] = Inr []"
| "filter_facets env fm ((k, v) # kvs) =
     (case is_warmup_only env fm k of
        Inl e \<Rightarrow> Inl e
      | Inr w \<Rightarrow>
          (case filter_facets env fm kvs of
             Inl e \<Rightarrow> Inl e
           | Inr kvs' \<Rightarrow> Inr (if w then kvs' else (k, v) # kvs')))"

text \<open>
  The run up to the call of \<open>aggregate_data(filtered_metrics, filtered_facets)\<close>:
  the scan of the sessions, the extraction for those without a cached facet, and the
  filter for warm-up sessions. The result is the final state with the two lists handed
  to the aggregation.
\<close>

definition initial_state :: "store \<Rightarrow> 'w client \<Rightarrow> 'w state" where
  "initial_state c cl =
     \<lparr>all_metrics = [], facets_map = [], sessions_needing_facets = [], cache = c, client = cl\<rparr>"

definition main :: "pyenv \<Rightarrow> 'w collaborator \<Rightarrow> prompts \<Rightarrow> store \<Rightarrow> 'w client \<Rightarrow> session list
    \<Rightarrow> (py_error \<times> 'w state) + ('w state \<times> metrics list \<times> json pydict)" where
  "main env coll ps c cl sessions =
     (case scan_sessions env (initial_state c cl) sessions of
        Inl e \<Rightarrow> Inl (e, initial_state c cl)
      | Inr st \<Rightarrow>
          (case extract_all env coll ps st of
             Inl e \<Rightarrow> Inl e
           | Inr st1 \<Rightarrow>
               (case filter_metrics env (facets_map st1) (all_metrics st1) of
                  Inl e \<Rightarrow> Inl (e, st1)
                | Inr filtered_metrics \<Rightarrow>
                    (case filter_facets env (facets_map st1) (facets_map st1) of
                       Inl e \<Rightarrow> Inl (e, st1)
                     | Inr filtered_facets \<Rightarrow> Inr (st1, filtered_metrics, filtered_facets)))))"

section \<open>Notions used in the proofs about the decoder\<close>

text \<open>
  A character that can continue a number: the match of \<open>NUMBER_RE\<close> does not change
  when text is appended, provided the character after the match is not one of these.
\<close>

definition num_cont :: "nat \<Rightarrow> bool" where
  "num_cont c \<longleftrightarrow> is_digit c \<or> c = ch CHR ''.'' \<or> c = ch CHR ''e'' \<or> c = ch CHR ''E''"

text \<open>A scanner that reads at least one character whenever it returns a value.\<close>

definition shortens :: "scanner \<Rightarrow> bool" where
  "shortens scan \<longleftrightarrow> (\<forall>s v r. scan s = Inr (v, r) \<longrightarrow> length r < length s)"

text \<open>
  A scanner whose result does not change when text is appended, provided the value it
  read is followed by a character that cannot continue a number.
\<close>

definition stable :: "scanner \<Rightarrow> bool" where
  "stable scan \<longleftrightarrow>
     (\<forall>s v r t. scan s = Inr (v, r) \<longrightarrow> r \<noteq> [] \<longrightarrow> \<not> num_cont (hd r)
        \<longrightarrow> scan (s @ t) = Inr (v, r @ t))"

section \<open>Instances of the parameters, for the examples\<close>

text \<open>
  The examples need values for the parameters of the model. \<open>example_fromisoformat\<close>
  is \<open>datetime.fromisoformat\<close> on four instants of one day (the instant counted from
  10:00:00 UTC) and raises elsewhere; \<open>example_float_sign\<close> is the sign of
  \<open>float(lexeme)\<close> on lexemes without exponent; \<open>example_json_dumps\<close> is
  \<open>json.dumps(obj, indent=2)\<close> on the facets of the examples.
\<close>

definition example_datetime :: "pystr \<Rightarrow> int \<Rightarrow> nat \<Rightarrow> datetime" where
  "example_datetime text seconds h =
     \<lparr>instant = seconds * 1000000, aware = True, hour = h, isoformat = text\<rparr>"

definition example_fromisoformat :: "pystr \<Rightarrow> datetime option" where
  "example_fromisoformat s =
     (if s = py ''2024-01-01T10:00:00+00:00'' then Some (example_datetime s 0 10)
      else if s = py ''2024-01-01T10:00:05+00:00'' then Some (example_datetime s 5 10)
      else if s = py ''2024-01-01T10:02:00+00:00'' then Some (example_datetime s 120 10)
      else if s = py ''2024-01-01T11:06:40+00:00'' then Some (example_datetime s 4000 11)
      else None)"

definition example_float_sign :: "pystr \<Rightarrow> fsign" where
  "example_float_sign x =
     (if x = py ''NaN'' then FNaN
      else if list_all (\<lambda>c. c = ch CHR ''0'' \<or> c = ch CHR ''.'' \<or> c = ch CHR ''-'') x then FZero
      else if take 1 x = py ''-'' then FNeg
      else FPos)"

definition banana_facet :: json where
  "banana_facet =
     JObj [(py ''outcome'', JStr (py ''banana'')),
           (py ''goal_categories'', JObj [(py ''fix_bug'', JInt (- 1))]),
           (py ''session_id'', JStr (py ''s1''))]"

definition banana_text :: pystr where
  \<open>banana_text =
     py ''{'' @ [0x0A]
     @ py ''  "outcome": "banana",'' @ [0x0A]
     @ py ''  "goal_categories": {'' @ [0x0A]
     @ py ''    "fix_bug": -1'' @ [0x0A]
     @ py ''  },'' @ [0x0A]
     @ py ''  "session_id": "s1"'' @ [0x0A]
     @ py ''}''\<close>

definition good_facet :: "pystr \<Rightarrow> json" where
  "good_facet sid =
     JObj [(py ''outcome'', JStr (py ''fully_achieved'')),
           (py ''session_id'', JStr sid)]"

definition good_text :: "pystr \<Rightarrow> pystr" where
  \<open>good_text sid =
     py ''{'' @ [0x0A]
     @ py ''  "outcome": "fully_achieved",'' @ [0x0A]
     @ py ''  "session_id": "'' @ sid @ py ''"'' @ [0x0A]
     @ py ''}''\<close>

definition example_json_dumps :: "json \<Rightarrow> pystr" where
  "example_json_dumps v =
     (if v = banana_facet then banana_text
      else if v = good_facet (py ''s1'') then good_text (py ''s1'')
      else if v = good_facet (py ''s2'') then good_text (py ''s2'')
      else if v = good_facet (py ''s3'') then good_text (py ''s3'')
      else py ''null'')"

definition example_env :: pyenv where
  "example_env =
     \<lparr>recursion_limit = 1000, int_max_str_digits = 4300,
      float_sign = example_float_sign, fromisoformat = example_fromisoformat,
      json_dumps = example_json_dumps, umask = 0x12\<rparr>"

definition example_prompts :: prompts where
  "example_prompts =
     \<lparr>FACET_SYSTEM_PROMPT = py ''Analyze this session. SESSION: '',
      FACET_SCHEMA = py '' RESPOND WITH ONLY A VALID JSON OBJECT'',
      SUMMARIZE_PROMPT = py ''Summarize: ''\<rparr>"

(* ==== properties ==== *)

section \<open>Properties of the chunker\<close>

lemma chunk_loop_concat: "0 < c \<Longrightarrow> concat (chunk_loop c i t) = drop i t"
proof (induction c i t rule: chunk_loop.induct)
  case (1 c i t)
  show ?case
  proof (cases "length t \<le> i")
    case True
    then show ?thesis by (simp add: chunk_loop.simps)
  next
    case False
    with 1 have "concat (chunk_loop c (i + c) t) = drop (i + c) t" by simp
    with False 1 show ?thesis
      by (subst chunk_loop.simps) (simp, metis add.commute append_take_drop_id drop_drop)
  qed
qed

lemma chunk_loop_nth:
  "0 < c \<Longrightarrow> k < length (chunk_loop c i t)
    \<Longrightarrow> chunk_loop c i t ! k = take c (drop (i + k * c) t)"
proof (induction c i t arbitrary: k rule: chunk_loop.induct)
  case (1 c i t)
  show ?case
  proof (cases "length t \<le> i")
    case True
    with 1(3) show ?thesis by (simp add: chunk_loop.simps)
  next
    case False
    show ?thesis
    proof (cases k)
      case 0
      with False 1(2) show ?thesis by (subst chunk_loop.simps) simp
    next
      case (Suc j)
      with 1(3) False 1(2) have "j < length (chunk_loop c (i + c) t)"
        by (subst (asm) chunk_loop.simps) simp
      with 1 False have "chunk_loop c (i + c) t ! j = take c (drop (i + c + j * c) t)" by simp
      with False 1(2) Suc show ?thesis
        by (subst chunk_loop.simps) (simp add: ac_simps)
    qed
  qed
qed

lemma chunk_loop_length:
  "0 < c \<Longrightarrow> length (chunk_loop c i t) = (length t - i + c - 1) div c"
proof (induction c i t rule: chunk_loop.induct)
  case (1 c i t)
  show ?case
  proof (cases "length t \<le> i")
    case True
    with 1(2) show ?thesis by (simp add: chunk_loop.simps)
  next
    case False
    with 1 have IH: "length (chunk_loop c (i + c) t) = (length t - (i + c) + c - 1) div c" by simp
    from False 1(2) have L: "length (chunk_loop c i t) = Suc (length (chunk_loop c (i + c) t))"
      by (subst chunk_loop.simps) simp
    have step: "\<And>d::nat. (d + c) div c = Suc (d div c)"
    proof -
      fix d :: nat
      from 1(2) have "c \<noteq> 0" by simp
      then have "(d + c) div c = d div c + 1" by (rule div_add_self2)
      then show "(d + c) div c = Suc (d div c)" by simp
    qed
    have "(length t - i + c - 1) div c = Suc ((length t - (i + c) + c - 1) div c)"
    proof (cases "length t \<le> i + c")
      case True
      with False 1(2) have e1: "length t - i + c - 1 = (length t - i - 1) + c"
        and lt: "length t - i - 1 < c" by arith+
      have "(length t - i + c - 1) div c = Suc ((length t - i - 1) div c)"
        by (simp only: e1 step)
      with lt have "(length t - i + c - 1) div c = Suc 0" by (simp only: div_less)
      moreover from True 1(2) have "(length t - (i + c) + c - 1) div c = 0" by simp
      ultimately show ?thesis by simp
    next
      case F2: False
      then have e: "length t - i + c - 1 = (length t - (i + c) + c - 1) + c" by arith
      show ?thesis by (simp only: e step)
    qed
    with L IH show ?thesis by simp
  qed
qed

text \<open>
  C6. For every transcript \<open>t\<close> and every chunk size \<open>C \<ge> 1\<close> the chunker returns (it does not
  raise) a list of chunks whose concatenation is \<open>t\<close>; chunk \<open>k\<close> is the slice of \<open>t\<close>
  from \<open>k * C\<close> of length at most \<open>C\<close> (contiguous, no overlap, no look at the content);
  every chunk but the last has exactly \<open>C\<close> characters, and the last is not empty and
  not longer than \<open>C\<close>; there are \<open>\<lceil>L / C\<rceil>\<close> chunks.
\<close>

theorem chunking_round_trip:
  assumes "1 \<le> C"
  shows "\<exists>cs. chunks C t = Inr cs
           \<and> concat cs = t
           \<and> length cs = (length t + C - 1) div C
           \<and> (\<forall>k < length cs. cs ! k = take C (drop (k * C) t))
           \<and> (\<forall>k. Suc k < length cs \<longrightarrow> length (cs ! k) = C)
           \<and> (\<forall>k < length cs. 0 < length (cs ! k) \<and> length (cs ! k) \<le> C)"
proof -
  let ?cs = "chunk_loop C 0 t"
  from assms have C: "0 < C" by simp
  have len: "length ?cs = (length t + C - 1) div C"
    using chunk_loop_length [OF C, of 0 t] by simp
  have nth: "\<And>k. k < length ?cs \<Longrightarrow> ?cs ! k = take C (drop (k * C) t)"
    using chunk_loop_nth [OF C, of _ 0 t] by simp
  have inside: "\<And>k. k < length ?cs \<Longrightarrow> k * C < length t"
  proof -
    fix k assume "k < length ?cs"
    with len have "k < (length t + C - 1) div C" by simp
    then have "Suc k \<le> (length t + C - 1) div C" by simp
    then have "Suc k * C \<le> (length t + C - 1) div C * C" by (rule mult_le_mono1)
    also have "\<dots> \<le> length t + C - 1" by (rule div_times_less_eq_dividend)
    finally have "Suc k * C \<le> length t + C - 1" .
    then show "k * C < length t" using C by simp
  qed
  have full: "\<And>k. Suc k < length ?cs \<Longrightarrow> length (?cs ! k) = C"
  proof -
    fix k assume k: "Suc k < length ?cs"
    then have "Suc k * C < length t" by (rule inside)
    then have "C \<le> length t - k * C" by simp
    moreover from k have "?cs ! k = take C (drop (k * C) t)" by (simp add: nth)
    ultimately show "length (?cs ! k) = C" by simp
  qed
  have some: "\<And>k. k < length ?cs \<Longrightarrow> 0 < length (?cs ! k) \<and> length (?cs ! k) \<le> C"
  proof -
    fix k assume k: "k < length ?cs"
    then have "k * C < length t" by (rule inside)
    with k C show "0 < length (?cs ! k) \<and> length (?cs ! k) \<le> C" by (simp add: nth)
  qed
  have "chunks C t = Inr ?cs" using C by (simp add: chunks_def)
  moreover have "concat ?cs = t" using chunk_loop_concat [OF C, of 0 t] by simp
  ultimately show ?thesis using len nth full some by blast
qed

theorem chunking_round_trip_witness:
  "chunks 3 (py ''abcdefgh'') = Inr [py ''abc'', py ''def'', py ''gh'']
   \<and> concat [py ''abc'', py ''def'', py ''gh''] = py ''abcdefgh''"
proof -
  have h: "(1::nat) \<le> 3" by simp
  have e: "chunks 3 (py ''abcdefgh'') = Inr [py ''abc'', py ''def'', py ''gh'']"
    by (simp add: chunks_def chunk_loop.simps)
  from chunking_round_trip [OF h, of "py ''abcdefgh''"] e show ?thesis by auto
qed

section \<open>Properties of the decoder\<close>

subsection \<open>Strings\<close>

lemma cons_char_Inr:
  "cons_char c r = Inr (k, rest) \<longleftrightarrow> (\<exists>k'. r = Inr (k', rest) \<and> k = c # k')"
  by (auto simp: cons_char_def split: sum.splits)

lemma decode_uXXXX_length: "decode_uXXXX s = Inr u \<Longrightarrow> 4 \<le> length s"
  by (auto simp: decode_uXXXX_def split: list.splits)

lemma decode_uXXXX_append: "decode_uXXXX s = Inr u \<Longrightarrow> decode_uXXXX (s @ t) = Inr u"
  by (auto simp: decode_uXXXX_def split: list.splits)

lemma scan_escape_length: "scan_escape s = Inr (c, n) \<Longrightarrow> 0 < n \<and> n \<le> length s"
  by (auto simp: scan_escape_def split: list.splits option.splits sum.splits if_splits
           dest!: decode_uXXXX_length)

lemma scanstring_shorter: "scanstring s = Inr (k, r) \<Longrightarrow> length r < length s"
proof (induction s arbitrary: k r rule: scanstring.induct)
  case 1
  then show ?case by simp
next
  case (2 c s)
  show ?case
  proof (cases "c = QUOTE")
    case True
    with 2(3) show ?thesis by simp
  next
    case nq: False
    show ?thesis
    proof (cases "c = BACKSLASH_CHAR")
      case True
      with nq 2(3) obtain c' n where e: "scan_escape s = Inr (c', n)"
        and r: "cons_char c' (scanstring (drop n s)) = Inr (k, r)"
        by (auto split: sum.splits)
      from r obtain k' where "scanstring (drop n s) = Inr (k', r)"
        by (auto simp: cons_char_Inr)
      with 2(1) [OF nq True e refl] have "length r < length (drop n s)" by blast
      then show ?thesis by simp
    next
      case False
      with nq 2(3) obtain k' where "scanstring s = Inr (k', r)"
        by (auto simp: cons_char_Inr split: if_splits)
      with 2(2) [OF nq False] 2(3) nq False have "length r < length s"
        by (auto split: if_splits)
      then show ?thesis by simp
    qed
  qed
qed


text \<open>appending text after a string that is closed\<close>

lemma scan_escape_append:
  assumes "scan_escape s = Inr (c, n)" and "drop n s \<noteq> []"
    and "hd (drop n s) \<noteq> BACKSLASH_CHAR \<or> 2 \<le> length (drop n s)"
  shows "scan_escape (s @ t) = Inr (c, n)"
proof (cases s)
  case Nil
  with assms show ?thesis by (simp add: scan_escape_def)
next
  case (Cons esc s1)
  show ?thesis
  proof (cases "esc = ch CHR ''u''")
    case False
    with assms(1) Cons show ?thesis
      by (auto simp: scan_escape_def split: option.splits)
  next
    case True
    with assms(1) Cons obtain uni where u: "decode_uXXXX s1 = Inr uni"
      by (auto simp: scan_escape_def split: sum.splits)
    then have u': "decode_uXXXX (s1 @ t) = Inr uni" by (rule decode_uXXXX_append)
    from u have l4: "4 \<le> length s1" by (rule decode_uXXXX_length)
    show ?thesis
    proof (cases "0xd800 \<le> uni \<and> uni \<le> 0xdbff \<and> take 2 (drop 4 s1) = [BACKSLASH_CHAR, ch CHR ''u'']")
      case pair: True
      then have "length (take 2 (drop 4 s1)) = 2" by simp
      then have l6: "6 \<le> length s1" by simp
      with pair have t2: "take 2 (drop 4 (s1 @ t)) = [BACKSLASH_CHAR, ch CHR ''u'']" by simp
      from pair assms(1) Cons True u obtain uni2 where u2: "decode_uXXXX (drop 6 s1) = Inr uni2"
        by (auto simp: scan_escape_def split: sum.splits)
      then have "decode_uXXXX (drop 6 s1 @ t) = Inr uni2" by (rule decode_uXXXX_append)
      with l6 have u2': "decode_uXXXX (drop 6 (s1 @ t)) = Inr uni2" by simp
      from assms(1) Cons True u u2 pair u' u2' t2 show ?thesis
        by (simp add: scan_escape_def)
    next
      case single: False
      with assms(1) Cons True u have n: "n = 5" and c: "c = uni"
        by (auto simp: scan_escape_def)
      from n Cons have d: "drop n s = drop 4 s1" by simp
      have "take 2 (drop 4 (s1 @ t)) \<noteq> [BACKSLASH_CHAR, ch CHR ''u''] \<or> \<not> (0xd800 \<le> uni \<and> uni \<le> 0xdbff)"
      proof (cases "0xd800 \<le> uni \<and> uni \<le> 0xdbff")
        case False
        then show ?thesis by blast
      next
        case True
        with single have ne: "take 2 (drop 4 s1) \<noteq> [BACKSLASH_CHAR, ch CHR ''u'']" by blast
        from assms(2) d obtain x xs where xs: "drop 4 s1 = x # xs" by (cases "drop 4 s1") auto
        show ?thesis
        proof (cases xs)
          case Nil
          with xs assms(3) d have "x \<noteq> BACKSLASH_CHAR" by auto
          with xs l4 show ?thesis by (auto simp: take_Suc_conv_app_nth numeral_2_eq_2)
        next
          case (Cons y ys)
          with xs ne l4 show ?thesis by (auto simp: numeral_2_eq_2)
        qed
      qed
      with Cons True u u' n c show ?thesis
        by (auto simp: scan_escape_def)
    qed
  qed
qed


lemma scanstring_append:
  "scanstring s = Inr (k, r) \<Longrightarrow> scanstring (s @ t) = Inr (k, r @ t)"
proof (induction s arbitrary: k r rule: scanstring.induct)
  case 1
  then show ?case by simp
next
  case (2 c s)
  show ?case
  proof (cases "c = QUOTE")
    case True
    with 2(3) show ?thesis by simp
  next
    case nq: False
    show ?thesis
    proof (cases "c = BACKSLASH_CHAR")
      case True
      with nq 2(3) obtain c' n where e: "scan_escape s = Inr (c', n)"
        and r: "cons_char c' (scanstring (drop n s)) = Inr (k, r)"
        by (auto split: sum.splits)
      from r obtain k' where k': "scanstring (drop n s) = Inr (k', r)" and k: "k = c' # k'"
        by (auto simp: cons_char_Inr)
      from 2(1) [OF nq True e refl k'] have IH: "scanstring (drop n s @ t) = Inr (k', r @ t)" .
      from e have n: "n \<le> length s" by (simp add: scan_escape_length)
      from k' have ne: "drop n s \<noteq> []" by (cases "drop n s") auto
      have "hd (drop n s) \<noteq> BACKSLASH_CHAR \<or> 2 \<le> length (drop n s)"
      proof (cases "drop n s")
        case Nil
        with ne show ?thesis by simp
      next
        case (Cons x xs)
        show ?thesis
        proof (cases "x = BACKSLASH_CHAR")
          case False
          with Cons show ?thesis by simp
        next
          case xb: True
          have "xs \<noteq> []"
          proof
            assume "xs = []"
            with Cons xb k' show False
              by (simp add: scan_escape_def QUOTE_def BACKSLASH_CHAR_def)
          qed
          with Cons show ?thesis by (cases xs) auto
        qed
      qed
      with e ne have "scan_escape (s @ t) = Inr (c', n)" by (rule scan_escape_append)
      with nq True IH n k show ?thesis by (simp add: cons_char_def)
    next
      case False
      with nq 2(3) obtain k' where k': "scanstring s = Inr (k', r)" and k: "k = c # k'"
        and c: "\<not> c < 0x20"
        by (auto simp: cons_char_Inr split: if_splits)
      from 2(2) [OF nq False _ k'] c have "scanstring (s @ t) = Inr (k', r @ t)" by simp
      with nq False c k show ?thesis by (simp add: cons_char_def)
    qed
  qed
qed

subsection \<open>Numbers\<close>

lemma takeWhile_append_stop:
  "dropWhile P xs \<noteq> [] \<Longrightarrow> takeWhile P (xs @ ys) = takeWhile P xs"
  by (induction xs) auto

lemma dropWhile_append_stop:
  "dropWhile P xs \<noteq> [] \<Longrightarrow> dropWhile P (xs @ ys) = dropWhile P xs @ ys"
  by (induction xs) auto

lemma match_exp_rest: "match_exp s = (x, r) \<Longrightarrow> \<exists>p. s = p @ r"
  by (auto simp: match_exp_def Let_def split: list.splits if_splits prod.splits)
     (metis append_Cons append_Nil takeWhile_dropWhile_id append.assoc)+

lemma match_frac_rest: "match_frac s = (x, r) \<Longrightarrow> \<exists>p. s = p @ r"
  by (auto simp: match_frac_def split: list.splits if_splits)
     (metis append_Cons takeWhile_dropWhile_id)

lemma match_exp_append:
  assumes "match_exp s = (x, r)" "r \<noteq> []" "\<not> num_cont (hd r)"
  shows "match_exp (s @ t) = (x, r @ t)"
  using assms
  by (auto simp: match_exp_def Let_def num_cont_def takeWhile_append_stop dropWhile_append_stop
      split: list.splits if_splits prod.splits)

lemma match_frac_append:
  assumes "match_frac s = (x, r)" "r \<noteq> []" "x = None \<longrightarrow> hd r \<noteq> ch CHR ''.''"
  shows "match_frac (s @ t) = (x, r @ t)"
  using assms
  by (auto simp: match_frac_def takeWhile_append_stop dropWhile_append_stop
      split: list.splits if_splits)

lemma match_exp_None: "match_exp s = (None, r) \<Longrightarrow> r = s"
  by (auto simp: match_exp_def Let_def split: list.splits if_splits prod.splits)

lemma match_exp_dot: "s \<noteq> [] \<Longrightarrow> hd s = ch CHR ''.'' \<Longrightarrow> match_exp s = (None, s)"
  by (cases s) (auto simp: match_exp_def)

lemma match_integer_append:
  assumes "match_integer s = Some (i, r)" "r \<noteq> []"
  shows "match_integer (s @ t) = Some (i, r @ t)"
proof (cases s)
  case Nil
  with assms show ?thesis by (simp add: match_integer_def)
next
  case (Cons c t0)
  show ?thesis
  proof (cases "c = ch CHR ''-''")
    case False
    with assms Cons show ?thesis
      by (auto simp: match_integer_def takeWhile_append_stop dropWhile_append_stop
          split: if_splits)
  next
    case True
    show ?thesis
    proof (cases t0)
      case Nil
      with assms Cons True show ?thesis by (simp add: match_integer_def)
    next
      case c2: (Cons d t1)
      with assms Cons True show ?thesis
        by (auto simp: match_integer_def takeWhile_append_stop dropWhile_append_stop
            split: if_splits)
    qed
  qed
qed

lemma match_number_append:
  assumes "match_number s = Some (i, f, x, r)" "r \<noteq> []" "\<not> num_cont (hd r)"
  shows "match_number (s @ t) = Some (i, f, x, r @ t)"
proof -
  from assms(1) obtain s1 s2 where mi: "match_integer s = Some (i, s1)"
    and mf: "match_frac s1 = (f, s2)" and me: "match_exp s2 = (x, r)"
    by (auto simp: match_number_def Let_def split: option.splits prod.splits)
  from me obtain p where "s2 = p @ r" by (auto dest: match_exp_rest)
  with assms(2) have s2: "s2 \<noteq> []" by simp
  from mf obtain q where "s1 = q @ s2" by (auto dest: match_frac_rest)
  with s2 have s1: "s1 \<noteq> []" by simp
  have dot: "f = None \<longrightarrow> hd s2 \<noteq> ch CHR ''.''"
  proof (intro impI notI)
    assume "f = None" and h: "hd s2 = ch CHR ''.''"
    from s2 h have "match_exp s2 = (None, s2)" by (rule match_exp_dot)
    with me have "r = s2" by simp
    with h assms(3) show False by (simp add: num_cont_def)
  qed
  from mi s1 have "match_integer (s @ t) = Some (i, s1 @ t)" by (rule match_integer_append)
  moreover from mf s2 dot have "match_frac (s1 @ t) = (f, s2 @ t)" by (rule match_frac_append)
  moreover from me assms(2,3) have "match_exp (s2 @ t) = (x, r @ t)" by (rule match_exp_append)
  ultimately show ?thesis by (simp add: match_number_def)
qed

lemma match_integer_shorter: "match_integer s = Some (i, r) \<Longrightarrow> length r < length s"
proof (cases s)
  case Nil
  assume "match_integer s = Some (i, r)"
  with Nil show ?thesis by (simp add: match_integer_def)
next
  case (Cons c t0)
  assume a: "match_integer s = Some (i, r)"
  have dw: "\<And>xs. length (dropWhile is_digit xs) \<le> length xs" by (rule length_dropWhile_le)
  show ?thesis
  proof (cases "c = ch CHR ''-''")
    case False
    with a Cons show ?thesis
      using dw [of t0] by (auto simp: match_integer_def split: if_splits)
  next
    case True
    show ?thesis
    proof (cases t0)
      case Nil
      with a Cons True show ?thesis by (simp add: match_integer_def)
    next
      case c2: (Cons d t1)
      with a Cons True show ?thesis
        using dw [of t1] by (auto simp: match_integer_def split: if_splits)
    qed
  qed
qed

lemma match_number_shorter:
  assumes "match_number s = Some (i, f, x, r)" shows "length r < length s"
proof -
  from assms obtain s1 s2 where mi: "match_integer s = Some (i, s1)"
    and mf: "match_frac s1 = (f, s2)" and me: "match_exp s2 = (x, r)"
    by (auto simp: match_number_def Let_def split: option.splits prod.splits)
  from me obtain p where "s2 = p @ r" by (auto dest: match_exp_rest)
  moreover from mf obtain q where "s1 = q @ s2" by (auto dest: match_frac_rest)
  moreover from mi have "length s1 < length s" by (rule match_integer_shorter)
  ultimately show ?thesis by simp
qed

text \<open>when the number match fails on a text of two characters or more that starts
  with a letter or a minus sign and a letter, it fails on every extension\<close>

lemma match_number_None_append:
  assumes "match_number s = None" and "s \<noteq> []"
    and "hd s = ch CHR ''-'' \<longrightarrow> 2 \<le> length s"
  shows "match_number (s @ t) = None"
  using assms
  by (cases s; cases "tl s")
     (auto simp: match_number_def match_integer_def Let_def split: if_splits option.splits prod.splits)

subsection \<open>Objects and arrays\<close>

lemma skip_ws_length: "length (skip_ws s) \<le> length s"
  by (simp add: skip_ws_def length_dropWhile_le)

lemma skip_ws_Cons_length: "skip_ws s = c # s' \<Longrightarrow> length s' < length s"
  using skip_ws_length [of s] by simp

lemma skip_ws_append: "skip_ws s = c # s' \<Longrightarrow> skip_ws (s @ t) = c # s' @ t"
  by (simp add: skip_ws_def dropWhile_append_stop)

lemma skip_ws_append_ne: "skip_ws s \<noteq> [] \<Longrightarrow> skip_ws (s @ t) = skip_ws s @ t"
  by (simp add: skip_ws_def dropWhile_append_stop)

lemma skip_ws_not_ws: "skip_ws s = c # s' \<Longrightarrow> \<not> is_ws c"
  unfolding skip_ws_def by (metis hd_dropWhile list.distinct(1) list.sel(1))

lemma skip_ws_hd: "skip_ws s = c # s' \<Longrightarrow> s \<noteq> [] \<and> (hd s = c \<or> is_ws (hd s))"
  by (cases s) (auto simp: skip_ws_def split: if_splits)

lemma delimiter_not_num_cont:
  assumes "skip_ws s = c # s'" and "c = ch CHR ''}'' \<or> c = ch CHR '','' \<or> c = ch CHR '']''"
  shows "s \<noteq> [] \<and> \<not> num_cont (hd s)"
proof -
  from assms(1) have ne: "s \<noteq> []" and h: "hd s = c \<or> is_ws (hd s)"
    by (auto dest: skip_ws_hd)
  from h assms(2) have "\<not> num_cont (hd s)"
    by (auto simp: num_cont_def is_ws_def is_digit_def)
  with ne show ?thesis by simp
qed

lemma obj_loop_Inr:
  assumes "obj_loop scan pairs s = Inr (res, r)"
  obtains key s1 s2 val s3 n s4 where
    "scanstring s = Inr (key, s1)" "skip_ws s1 = ch CHR '':'' # s2"
    "scan (skip_ws s2) = Inr (val, s3)" "skip_ws s3 = n # s4"
    "(n = ch CHR ''}'' \<and> res = pairs @ [(key, val)] \<and> r = s4)
     \<or> (n = ch CHR '','' \<and> (\<exists>s5. skip_ws s4 = QUOTE # s5 \<and> length s5 < length s
            \<and> obj_loop scan (pairs @ [(key, val)]) s5 = Inr (res, r)))"
  using assms
  by (subst (asm) obj_loop.simps) (auto split: sum.splits list.splits if_splits)

lemma obj_loop_shorter:
  assumes "shortens scan"
  shows "obj_loop scan pairs s = Inr (res, r) \<Longrightarrow> length r < length s"
proof (induction "length s" arbitrary: s pairs rule: less_induct)
  case less
  from less.prems obtain key s1 s2 val s3 n s4 where
    a: "scanstring s = Inr (key, s1)" and b: "skip_ws s1 = ch CHR '':'' # s2"
    and c: "scan (skip_ws s2) = Inr (val, s3)" and d: "skip_ws s3 = n # s4"
    and e: "(n = ch CHR ''}'' \<and> res = pairs @ [(key, val)] \<and> r = s4)
     \<or> (n = ch CHR '','' \<and> (\<exists>s5. skip_ws s4 = QUOTE # s5 \<and> length s5 < length s
            \<and> obj_loop scan (pairs @ [(key, val)]) s5 = Inr (res, r)))"
    by (rule obj_loop_Inr)
  from a have 1: "length s1 < length s" by (rule scanstring_shorter)
  from b have 2: "length s2 < length s1" by (rule skip_ws_Cons_length)
  from c assms have "length s3 < length (skip_ws s2)" by (auto simp: shortens_def)
  with skip_ws_length [of s2] have 3: "length s3 < length s2" by simp
  from d have 4: "length s4 < length s3" by (rule skip_ws_Cons_length)
  from e show ?case
  proof
    assume "n = ch CHR ''}'' \<and> res = pairs @ [(key, val)] \<and> r = s4"
    with 1 2 3 4 show ?thesis by simp
  next
    assume "n = ch CHR '','' \<and> (\<exists>s5. skip_ws s4 = QUOTE # s5 \<and> length s5 < length s
            \<and> obj_loop scan (pairs @ [(key, val)]) s5 = Inr (res, r))"
    then obtain s5 where l: "length s5 < length s"
      and o: "obj_loop scan (pairs @ [(key, val)]) s5 = Inr (res, r)" by blast
    from less.hyps [OF l o] l show ?thesis by simp
  qed
qed

lemma obj_loop_append:
  assumes "shortens scan" and "stable scan"
  shows "obj_loop scan pairs s = Inr (res, r) \<Longrightarrow> obj_loop scan pairs (s @ t) = Inr (res, r @ t)"
proof (induction "length s" arbitrary: s pairs rule: less_induct)
  case less
  from less.prems obtain key s1 s2 val s3 n s4 where
    a: "scanstring s = Inr (key, s1)" and b: "skip_ws s1 = ch CHR '':'' # s2"
    and c: "scan (skip_ws s2) = Inr (val, s3)" and d: "skip_ws s3 = n # s4"
    and e: "(n = ch CHR ''}'' \<and> res = pairs @ [(key, val)] \<and> r = s4)
     \<or> (n = ch CHR '','' \<and> (\<exists>s5. skip_ws s4 = QUOTE # s5 \<and> length s5 < length s
            \<and> obj_loop scan (pairs @ [(key, val)]) s5 = Inr (res, r)))"
    by (rule obj_loop_Inr)
  from a have a': "scanstring (s @ t) = Inr (key, s1 @ t)" by (rule scanstring_append)
  from b have b': "skip_ws (s1 @ t) = ch CHR '':'' # s2 @ t" by (rule skip_ws_append)
  from c assms(1) have "length s3 < length (skip_ws s2)" by (auto simp: shortens_def)
  then have "skip_ws s2 \<noteq> []" by auto
  then have w2: "skip_ws (s2 @ t) = skip_ws s2 @ t" by (rule skip_ws_append_ne)
  from e have n: "n = ch CHR ''}'' \<or> n = ch CHR '','' \<or> n = ch CHR '']''" by blast
  from d n have "s3 \<noteq> [] \<and> \<not> num_cont (hd s3)" by (rule delimiter_not_num_cont)
  with c assms(2) have "scan (skip_ws s2 @ t) = Inr (val, s3 @ t)" by (auto simp: stable_def)
  with w2 have c': "scan (skip_ws (s2 @ t)) = Inr (val, s3 @ t)" by simp
  from d have d': "skip_ws (s3 @ t) = n # s4 @ t" by (rule skip_ws_append)
  from e show ?case
  proof
    assume "n = ch CHR ''}'' \<and> res = pairs @ [(key, val)] \<and> r = s4"
    with a' b' c' d' show ?thesis by (subst obj_loop.simps) simp
  next
    assume "n = ch CHR '','' \<and> (\<exists>s5. skip_ws s4 = QUOTE # s5 \<and> length s5 < length s
            \<and> obj_loop scan (pairs @ [(key, val)]) s5 = Inr (res, r))"
    then obtain s5 where n': "n = ch CHR '',''" and f: "skip_ws s4 = QUOTE # s5" and l: "length s5 < length s"
      and o: "obj_loop scan (pairs @ [(key, val)]) s5 = Inr (res, r)" by blast
    from f have f': "skip_ws (s4 @ t) = QUOTE # s5 @ t" by (rule skip_ws_append)
    from less.hyps [OF l o] have "obj_loop scan (pairs @ [(key, val)]) (s5 @ t) = Inr (res, r @ t)" .
    with a' b' c' d' f' n' l show ?thesis by (subst obj_loop.simps) simp
  qed
qed

lemma arr_loop_Inr:
  assumes "arr_loop scan vals s = Inr (res, r)"
  obtains val s1 n s2 where
    "scan s = Inr (val, s1)" "skip_ws s1 = n # s2"
    "(n = ch CHR '']'' \<and> res = vals @ [val] \<and> r = s2)
     \<or> (n = ch CHR '','' \<and> length (skip_ws s2) < length s
            \<and> arr_loop scan (vals @ [val]) (skip_ws s2) = Inr (res, r))"
  using assms
  by (subst (asm) arr_loop.simps) (auto split: sum.splits list.splits if_splits)

lemma arr_loop_shorter:
  assumes "shortens scan"
  shows "arr_loop scan vals s = Inr (res, r) \<Longrightarrow> length r < length s"
proof (induction "length s" arbitrary: s vals rule: less_induct)
  case less
  from less.prems obtain val s1 n s2 where
    a: "scan s = Inr (val, s1)" and b: "skip_ws s1 = n # s2"
    and e: "(n = ch CHR '']'' \<and> res = vals @ [val] \<and> r = s2)
     \<or> (n = ch CHR '','' \<and> length (skip_ws s2) < length s
            \<and> arr_loop scan (vals @ [val]) (skip_ws s2) = Inr (res, r))"
    by (rule arr_loop_Inr)
  from a assms have 1: "length s1 < length s" by (auto simp: shortens_def)
  from b have 2: "length s2 < length s1" by (rule skip_ws_Cons_length)
  from e show ?case
  proof
    assume "n = ch CHR '']'' \<and> res = vals @ [val] \<and> r = s2"
    with 1 2 show ?thesis by simp
  next
    assume "n = ch CHR '','' \<and> length (skip_ws s2) < length s
            \<and> arr_loop scan (vals @ [val]) (skip_ws s2) = Inr (res, r)"
    then have l: "length (skip_ws s2) < length s"
      and o: "arr_loop scan (vals @ [val]) (skip_ws s2) = Inr (res, r)" by blast+
    from less.hyps [OF l o] l show ?thesis by simp
  qed
qed

lemma arr_loop_append:
  assumes "shortens scan" and "stable scan"
  shows "arr_loop scan vals s = Inr (res, r) \<Longrightarrow> arr_loop scan vals (s @ t) = Inr (res, r @ t)"
proof (induction "length s" arbitrary: s vals rule: less_induct)
  case less
  from less.prems obtain val s1 n s2 where
    a: "scan s = Inr (val, s1)" and b: "skip_ws s1 = n # s2"
    and e: "(n = ch CHR '']'' \<and> res = vals @ [val] \<and> r = s2)
     \<or> (n = ch CHR '','' \<and> length (skip_ws s2) < length s
            \<and> arr_loop scan (vals @ [val]) (skip_ws s2) = Inr (res, r))"
    by (rule arr_loop_Inr)
  from e have n: "n = ch CHR ''}'' \<or> n = ch CHR '','' \<or> n = ch CHR '']''" by blast
  from b n have "s1 \<noteq> [] \<and> \<not> num_cont (hd s1)" by (rule delimiter_not_num_cont)
  with a assms(2) have a': "scan (s @ t) = Inr (val, s1 @ t)" by (auto simp: stable_def)
  from b have b': "skip_ws (s1 @ t) = n # s2 @ t" by (rule skip_ws_append)
  from e show ?case
  proof
    assume "n = ch CHR '']'' \<and> res = vals @ [val] \<and> r = s2"
    with a' b' show ?thesis by (subst arr_loop.simps) simp
  next
    assume "n = ch CHR '','' \<and> length (skip_ws s2) < length s
            \<and> arr_loop scan (vals @ [val]) (skip_ws s2) = Inr (res, r)"
    then have n': "n = ch CHR '',''" and l: "length (skip_ws s2) < length s"
      and o: "arr_loop scan (vals @ [val]) (skip_ws s2) = Inr (res, r)" by blast+
    from o assms(1) have "length r < length (skip_ws s2)" by (rule arr_loop_shorter [rotated])
    then have "skip_ws s2 \<noteq> []" by auto
    then have w: "skip_ws (s2 @ t) = skip_ws s2 @ t" by (rule skip_ws_append_ne)
    from less.hyps [OF l o] have "arr_loop scan (vals @ [val]) (skip_ws s2 @ t) = Inr (res, r @ t)" .
    with a' b' w n' l show ?thesis by (subst arr_loop.simps) simp
  qed
qed

lemma JSONObject_shorter:
  assumes "shortens scan" and "JSONObject scan s = Inr (v, r)"
  shows "length r < length s"
proof -
  from assms(2) obtain n s1 where w: "skip_ws s = n # s1"
    by (cases "skip_ws s") (auto simp: JSONObject_def)
  then have l: "length s1 < length s" by (rule skip_ws_Cons_length)
  show ?thesis
  proof (cases "n = ch CHR ''}''")
    case True
    with assms(2) w l show ?thesis by (simp add: JSONObject_def)
  next
    case False
    with assms(2) w obtain pairs where "obj_loop scan [] s1 = Inr (pairs, r)"
      by (auto simp: JSONObject_def split: if_splits sum.splits)
    with assms(1) have "length r < length s1" by (rule obj_loop_shorter)
    with l show ?thesis by simp
  qed
qed

lemma JSONObject_append:
  assumes "shortens scan" and "stable scan" and "JSONObject scan s = Inr (v, r)"
  shows "JSONObject scan (s @ t) = Inr (v, r @ t)"
proof -
  from assms(3) obtain n s1 where w: "skip_ws s = n # s1"
    by (cases "skip_ws s") (auto simp: JSONObject_def)
  then have w': "skip_ws (s @ t) = n # s1 @ t" by (rule skip_ws_append)
  show ?thesis
  proof (cases "n = ch CHR ''}''")
    case True
    with assms(3) w w' show ?thesis by (simp add: JSONObject_def)
  next
    case False
    with assms(3) w obtain pairs where q: "n = QUOTE" and o: "obj_loop scan [] s1 = Inr (pairs, r)"
      and v: "v = JObj (dict_of_pairs pairs)"
      by (auto simp: JSONObject_def split: if_splits sum.splits)
    from assms(1,2) o have "obj_loop scan [] (s1 @ t) = Inr (pairs, r @ t)" by (rule obj_loop_append)
    with False q v w' show ?thesis by (simp add: JSONObject_def)
  qed
qed

lemma JSONObject_is_dict: "JSONObject scan s = Inr (v, r) \<Longrightarrow> \<exists>d. v = JObj d"
  by (auto simp: JSONObject_def split: list.splits if_splits sum.splits)

lemma JSONArray_shorter:
  assumes "shortens scan" and "JSONArray scan s = Inr (v, r)"
  shows "length r < length s"
proof (cases "take 1 (skip_ws s) = [ch CHR '']'']")
  case True
  then obtain c cs where w: "skip_ws s = c # cs" by (cases "skip_ws s") auto
  then have "length cs < length s" by (rule skip_ws_Cons_length)
  moreover from True assms(2) w have "r = cs" by (simp add: JSONArray_def Let_def)
  ultimately show ?thesis by simp
next
  case False
  with assms(2) obtain vals where "arr_loop scan [] (skip_ws s) = Inr (vals, r)"
    by (auto simp: JSONArray_def Let_def split: sum.splits)
  with assms(1) have "length r < length (skip_ws s)" by (rule arr_loop_shorter)
  with skip_ws_length [of s] show ?thesis by simp
qed

lemma JSONArray_append:
  assumes "shortens scan" and "stable scan" and "JSONArray scan s = Inr (v, r)"
  shows "JSONArray scan (s @ t) = Inr (v, r @ t)"
proof (cases "take 1 (skip_ws s) = [ch CHR '']'']")
  case True
  then have ne: "skip_ws s \<noteq> []" by auto
  then have "skip_ws (s @ t) = skip_ws s @ t" by (rule skip_ws_append_ne)
  with True ne assms(3) show ?thesis
    by (cases "skip_ws s") (auto simp: JSONArray_def Let_def)
next
  case False
  with assms(3) obtain vals where o: "arr_loop scan [] (skip_ws s) = Inr (vals, r)"
    and v: "v = JArr vals"
    by (auto simp: JSONArray_def Let_def split: sum.splits)
  from assms(1) o have "length r < length (skip_ws s)" by (rule arr_loop_shorter)
  then have ne: "skip_ws s \<noteq> []" by auto
  then have w: "skip_ws (s @ t) = skip_ws s @ t" by (rule skip_ws_append_ne)
  from assms(1,2) o have "arr_loop scan [] (skip_ws s @ t) = Inr (vals, r @ t)" by (rule arr_loop_append)
  with False ne w v show ?thesis
    by (cases "skip_ws s") (auto simp: JSONArray_def Let_def)
qed

subsection \<open>Values\<close>

lemma take_literal_length: "take n s = lit \<Longrightarrow> length lit = n \<Longrightarrow> n \<le> length s"
  by (metis length_take min.cobounded1 min_def nat_le_linear)

lemma scan_once_shortens: "shortens (scan_once mx d)"
proof (induction d)
  case 0
  show ?case by (simp add: shortens_def)
next
  case (Suc d)
  show ?case
    unfolding shortens_def
  proof (intro allI impI)
    fix s v r
    assume a: "scan_once mx (Suc d) s = Inr (v, r)"
    then obtain c t where s: "s = c # t" by (cases s) auto
    show "length r < length s"
    proof (cases "c = QUOTE")
      case True
      with a s obtain str where "scanstring t = Inr (str, r)"
        by (auto split: sum.splits)
      then have "length r < length t" by (rule scanstring_shorter)
      with s show ?thesis by simp
    next
      case nq: False
      show ?thesis
      proof (cases "c = ch CHR ''{''")
        case True
        with a s nq have "JSONObject (scan_once mx d) t = Inr (v, r)" by simp
        with Suc have "length r < length t" by (rule JSONObject_shorter)
        with s show ?thesis by simp
      next
        case nb: False
        show ?thesis
        proof (cases "c = ch CHR ''[''")
          case True
          with a s nq nb have "JSONArray (scan_once mx d) t = Inr (v, r)" by simp
          with Suc have "length r < length t" by (rule JSONArray_shorter)
          with s show ?thesis by simp
        next
          case na: False
          show ?thesis
          proof (cases "match_number s")
            case (Some m)
            then obtain i f x r' where m: "match_number s = Some (i, f, x, r')"
              by (cases m) auto
            then have l: "length r' < length s" by (rule match_number_shorter)
            from m have "c \<noteq> ch CHR ''n'' \<and> c \<noteq> ch CHR ''t'' \<and> c \<noteq> ch CHR ''f''"
              using s by (auto simp: match_number_def match_integer_def split: if_splits option.splits)
            with a s nq nb na m have "r = r'"
              by (auto split: if_splits sum.splits)
            with l show ?thesis by simp
          next
            case None
            with a s nq nb na have
              "(take 4 s = py ''null'' \<and> r = drop 4 s) \<or> (take 4 s = py ''true'' \<and> r = drop 4 s)
               \<or> (take 5 s = py ''false'' \<and> r = drop 5 s) \<or> (take 3 s = py ''NaN'' \<and> r = drop 3 s)
               \<or> (take 8 s = py ''Infinity'' \<and> r = drop 8 s) \<or> (take 9 s = py ''-Infinity'' \<and> r = drop 9 s)"
              by (simp split: if_splits)
            with s show ?thesis by auto
          qed
        qed
      qed
    qed
  qed
qed


lemma take_drop_append_literal:
  assumes "take n s = lit" and "length lit = n"
  shows "take n (s @ t) = lit \<and> drop n (s @ t) = drop n s @ t"
proof -
  from assms have "n \<le> length s" by (rule take_literal_length)
  with assms show ?thesis by simp
qed

lemma scan_once_stable: "stable (scan_once mx d)"
proof (induction d)
  case 0
  show ?case by (simp add: stable_def)
next
  case (Suc d)
  have sh: "shortens (scan_once mx d)" by (rule scan_once_shortens)
  show ?case
    unfolding stable_def
  proof (intro allI impI)
    fix s v r t
    assume a: "scan_once mx (Suc d) s = Inr (v, r)" and rne: "r \<noteq> []"
      and nc: "\<not> num_cont (hd r)"
    then obtain c u where s: "s = c # u" by (cases s) auto
    show "scan_once mx (Suc d) (s @ t) = Inr (v, r @ t)"
    proof (cases "c = QUOTE")
      case True
      with a s obtain str where "scanstring u = Inr (str, r)" and "v = JStr str"
        by (auto split: sum.splits)
      moreover from this have "scanstring (u @ t) = Inr (str, r @ t)"
        by (simp add: scanstring_append)
      ultimately show ?thesis using s True by simp
    next
      case nq: False
      show ?thesis
      proof (cases "c = ch CHR ''{''")
        case True
        with a s nq have "JSONObject (scan_once mx d) u = Inr (v, r)" by simp
        with sh Suc have "JSONObject (scan_once mx d) (u @ t) = Inr (v, r @ t)"
          by (rule JSONObject_append)
        with s True nq show ?thesis by simp
      next
        case nb: False
        show ?thesis
        proof (cases "c = ch CHR ''[''")
          case True
          with a s nq nb have "JSONArray (scan_once mx d) u = Inr (v, r)" by simp
          with sh Suc have "JSONArray (scan_once mx d) (u @ t) = Inr (v, r @ t)"
            by (rule JSONArray_append)
          with s True nq nb show ?thesis by simp
        next
          case na: False
          show ?thesis
          proof (cases "match_number s")
            case (Some m)
            then obtain i f x r' where m: "match_number s = Some (i, f, x, r')"
              by (cases m) auto
            from m have lit: "c \<noteq> ch CHR ''n'' \<and> c \<noteq> ch CHR ''t'' \<and> c \<noteq> ch CHR ''f''"
              using s by (auto simp: match_number_def match_integer_def split: if_splits option.splits)
            with a s nq nb na m have r: "r = r'"
              by (auto split: if_splits sum.splits)
            with m rne nc have "match_number (s @ t) = Some (i, f, x, r @ t)"
              by (simp add: match_number_append)
            with a s nq nb na m lit r show ?thesis
              by (auto split: if_splits sum.splits)
          next
            case None
            with a s nq nb na have d:
              "(c = ch CHR ''n'' \<and> take 4 s = py ''null'' \<and> r = drop 4 s \<and> v = JNull)
               \<or> (c = ch CHR ''t'' \<and> take 4 s = py ''true'' \<and> r = drop 4 s \<and> v = JBool True)
               \<or> (c = ch CHR ''f'' \<and> take 5 s = py ''false'' \<and> r = drop 5 s \<and> v = JBool False)
               \<or> (c = ch CHR ''N'' \<and> take 3 s = py ''NaN'' \<and> r = drop 3 s \<and> v = JFloat (py ''NaN''))
               \<or> (c = ch CHR ''I'' \<and> take 8 s = py ''Infinity'' \<and> r = drop 8 s
                    \<and> v = JFloat (py ''Infinity''))
               \<or> (c = ch CHR ''-'' \<and> take 9 s = py ''-Infinity'' \<and> r = drop 9 s
                    \<and> v = JFloat (py ''-Infinity''))"
              by (simp split: if_splits)
            have two: "hd s = ch CHR ''-'' \<longrightarrow> 2 \<le> length s"
            proof
              assume "hd s = ch CHR ''-''"
              with s d have "take 9 s = py ''-Infinity''" by auto
              then have "9 \<le> length s" by (rule take_literal_length) simp
              then show "2 \<le> length s" by simp
            qed
            from None s two have mn: "match_number (s @ t) = None"
              by (intro match_number_None_append) auto
            from d show ?thesis
            proof (elim disjE conjE)
              assume "c = ch CHR ''n''" "take 4 s = py ''null''" "r = drop 4 s" "v = JNull"
              moreover from this have "take 4 (s @ t) = py ''null'' \<and> drop 4 (s @ t) = drop 4 s @ t"
                by (intro take_drop_append_literal) auto
              ultimately show ?thesis using s by (simp add: QUOTE_def)
            next
              assume "c = ch CHR ''t''" "take 4 s = py ''true''" "r = drop 4 s" "v = JBool True"
              moreover from this have "take 4 (s @ t) = py ''true'' \<and> drop 4 (s @ t) = drop 4 s @ t"
                by (intro take_drop_append_literal) auto
              ultimately show ?thesis using s by (simp add: QUOTE_def)
            next
              assume "c = ch CHR ''f''" "take 5 s = py ''false''" "r = drop 5 s" "v = JBool False"
              moreover from this have "take 5 (s @ t) = py ''false'' \<and> drop 5 (s @ t) = drop 5 s @ t"
                by (intro take_drop_append_literal) auto
              ultimately show ?thesis using s by (simp add: QUOTE_def)
            next
              assume "c = ch CHR ''N''" "take 3 s = py ''NaN''" "r = drop 3 s" "v = JFloat (py ''NaN'')"
              moreover from this have "take 3 (s @ t) = py ''NaN'' \<and> drop 3 (s @ t) = drop 3 s @ t"
                by (intro take_drop_append_literal) auto
              ultimately show ?thesis using s mn by (simp add: QUOTE_def)
            next
              assume "c = ch CHR ''I''" "take 8 s = py ''Infinity''" "r = drop 8 s"
                "v = JFloat (py ''Infinity'')"
              moreover from this have "take 8 (s @ t) = py ''Infinity'' \<and> drop 8 (s @ t) = drop 8 s @ t"
                by (intro take_drop_append_literal) auto
              ultimately show ?thesis using s mn by (simp add: QUOTE_def)
            next
              assume "c = ch CHR ''-''" "take 9 s = py ''-Infinity''" "r = drop 9 s"
                "v = JFloat (py ''-Infinity'')"
              moreover from this have "take 9 (s @ t) = py ''-Infinity'' \<and> drop 9 (s @ t) = drop 9 s @ t"
                by (intro take_drop_append_literal) auto
              ultimately show ?thesis using s mn by (simp add: QUOTE_def)
            qed
          qed
        qed
      qed
    qed
  qed
qed

subsection \<open>Recovery of an object from a text\<close>

lemma raw_decode_object_append:
  assumes "raw_decode env (ch CHR ''{'' # body) = Inr (obj, r)"
  shows "raw_decode env (ch CHR ''{'' # body @ t) = Inr (obj, r @ t)"
proof (cases "recursion_limit env")
  case 0
  with assms show ?thesis by (simp add: raw_decode_def)
next
  case (Suc d)
  with assms have "JSONObject (scan_once (int_max_str_digits env) d) body = Inr (obj, r)"
    by (simp add: raw_decode_def QUOTE_def)
  with scan_once_shortens scan_once_stable
  have "JSONObject (scan_once (int_max_str_digits env) d) (body @ t) = Inr (obj, r @ t)"
    by (rule JSONObject_append)
  with Suc show ?thesis by (simp add: raw_decode_def QUOTE_def)
qed

lemma raw_decode_object_is_dict:
  assumes "raw_decode env (ch CHR ''{'' # body) = Inr (obj, r)"
  shows "\<exists>d. obj = JObj d"
proof (cases "recursion_limit env")
  case 0
  with assms show ?thesis by (simp add: raw_decode_def)
next
  case (Suc d)
  with assms have "JSONObject (scan_once (int_max_str_digits env) d) body = Inr (obj, r)"
    by (simp add: raw_decode_def QUOTE_def)
  then show ?thesis by (rule JSONObject_is_dict)
qed

lemma find_brace:
  assumes "ch CHR ''{'' \<notin> set pre"
  shows "dropWhile (\<lambda>c. c \<noteq> ch CHR ''{'') (pre @ ch CHR ''{'' # rest) = ch CHR ''{'' # rest"
  using assms by (induction pre) auto

lemma find_brace_result:
  "dropWhile (\<lambda>c. c \<noteq> ch CHR ''{'') text = c # t \<Longrightarrow> c = ch CHR ''{''"
  by (metis (mono_tags, lifting) hd_dropWhile list.distinct(1) list.sel(1))

lemma extract_json_object_surrounded:
  assumes "ch CHR ''{'' \<notin> set pre"
    and "raw_decode env (ch CHR ''{'' # body) = Inr (obj, r)"
  shows "extract_json_object env (pre @ ch CHR ''{'' # body @ suf) = Inr (Some obj)"
proof -
  from assms(2) have "raw_decode env (ch CHR ''{'' # body @ suf) = Inr (obj, r @ suf)"
    by (rule raw_decode_object_append)
  then show ?thesis
    unfolding extract_json_object_def find_brace [OF assms(1), of "body @ suf"] by simp
qed

lemma extract_json_object_is_dict:
  assumes "extract_json_object env text = Inr (Some v)"
  shows "\<exists>d. v = JObj d"
proof (cases "dropWhile (\<lambda>c. c \<noteq> ch CHR ''{'') text")
  case Nil
  from assms show ?thesis unfolding extract_json_object_def Nil by simp
next
  case (Cons c t)
  then have c: "c = ch CHR ''{''" by (rule find_brace_result)
  from assms obtain r where "raw_decode env (c # t) = Inr (v, r)"
    unfolding extract_json_object_def Cons
    by (auto split: sum.splits py_error.splits)
  then have "raw_decode env (ch CHR ''{'' # t) = Inr (v, r)" by (simp only: c)
  then show ?thesis by (rule raw_decode_object_is_dict)
qed

text \<open>a text that is cut before the end of an object does not load\<close>

lemma json_loads_proper_prefix:
  assumes "raw_decode env (ch CHR ''{'' # body) = Inr (obj, [])"
    and "p @ q = ch CHR ''{'' # body" and "q \<noteq> []"
  shows "\<exists>e. json_loads env p = Inl e"
proof (cases p)
  case Nil
  show ?thesis
    by (cases "recursion_limit env") (simp_all add: Nil json_loads_def raw_decode_def skip_ws_def)
next
  case (Cons c p')
  with assms(2) have c: "c = ch CHR ''{''" and b: "body = p' @ q" by auto
  have "\<exists>e. raw_decode env p = Inl e"
  proof (cases "raw_decode env p")
    case (Inl e)
    then show ?thesis by blast
  next
    case (Inr vr)
    then obtain v r where "raw_decode env (ch CHR ''{'' # p') = Inr (v, r)"
      using Cons c by (cases vr) auto
    then have "raw_decode env (ch CHR ''{'' # p' @ q) = Inr (v, r @ q)"
      by (rule raw_decode_object_append)
    with assms(1) b assms(3) show ?thesis by simp
  qed
  moreover from Cons c have "skip_ws p = p" by (simp add: skip_ws_def is_ws_def)
  moreover from Cons c have "take 1 p \<noteq> [0xFEFF]" by simp
  ultimately show ?thesis by (auto simp: json_loads_def)
qed

end
